theory Spec2Isabelle
  imports Complex_Main
begin

section \<open>Numbers, errors and arrays\<close>

text \<open>
  Both notebooks compute with numpy float64 arrays. The embedding reads a float as the
  real number it denotes, and the loops of the notebooks are embedded in exact
  arithmetic (no rounding, no overflow). The value nan is written out where the code
  tests for it or stores it on purpose: the cells of the boundary array \<open>b\<close> and of
  \<open>zeroneighbor\<close> are \<open>real option\<close>, with \<open>None\<close> for nan. A Python exception is a
  value of type \<open>error\<close>.
\<close>

datatype error = ZeroDivisionError | ValueError

text \<open>A two-dimensional numpy array: its shape and its cells.\<close>

record 'a array2 =
  size0 :: nat
  size1 :: nat
  cell :: "nat \<Rightarrow> nat \<Rightarrow> 'a"

definition set_at :: "(nat \<Rightarrow> nat \<Rightarrow> 'a) \<Rightarrow> nat \<Rightarrow> nat \<Rightarrow> 'a \<Rightarrow> (nat \<Rightarrow> nat \<Rightarrow> 'a)" where
  "set_at f ix iy v = f(ix := (f ix)(iy := v))"

definition isnan :: "real option \<Rightarrow> bool" where
  "isnan x = (x = None)"

text \<open>\<open>for i in range(...)\<close> over a state, stopping at the first exception.\<close>

fun for_each :: "nat list \<Rightarrow> (nat \<Rightarrow> 's \<Rightarrow> error + 's) \<Rightarrow> 's \<Rightarrow> error + 's" where
  "for_each [] body st = Inr st"
| "for_each (i # is) body st =
     (case body i st of Inl e \<Rightarrow> Inl e | Inr st' \<Rightarrow> for_each is body st')"

subsection \<open>Rounding\<close>

text \<open>
  An arithmetic operation on floats is the exact operation followed by a rounding. The
  functions whose results are compared exactly below take the rounding as a parameter
  \<open>rnd\<close>, applied to the result of every operation that rounds: \<open>rnd = id\<close> is exact
  arithmetic, and \<open>rnd = float64\<close> is the rounding to the nearest binary64 number, ties
  to even. \<open>float64\<close> keeps 53 significant bits and does not bound the exponent, so it is
  the IEEE 754 rounding on every real of magnitude between \<open>2^-1022\<close> and \<open>2^1024\<close>
  (no overflow and no subnormal result); a literal of the source is the rounding of the
  decimal written.
\<close>

definition round_even :: "real \<Rightarrow> int" where
  "round_even x =
     (let f = \<lfloor>x\<rfloor>
      in if x - of_int f < 1 / 2 then f
         else if 1 / 2 < x - of_int f then f + 1
         else if even f then f else f + 1)"

definition float64 :: "real \<Rightarrow> real" where
  "float64 x =
     (if x = 0 then 0
      else (let e = \<lfloor>log 2 \<bar>x\<bar>\<rfloor> - 52
            in of_int (round_even (x / 2 powr of_int e)) * 2 powr of_int e))"

section \<open>The lightning notebook: \<open>solvepoisson\<close>\<close>

text \<open>
  \<open>z = np.copy(b)\<close> and \<open>znew = np.copy(z)\<close> allocate two arrays; the variables
  \<open>z\<close> and \<open>znew\<close> refer to them and are exchanged at the end of every sweep. The
  state is the store of the two arrays and the two references.
\<close>

datatype buf = BufA | BufB

record sp_state =
  heap :: "buf \<Rightarrow> nat \<Rightarrow> nat \<Rightarrow> real"
  z_ptr :: buf
  znew_ptr :: buf

definition write_znew :: "sp_state \<Rightarrow> nat \<Rightarrow> nat \<Rightarrow> real \<Rightarrow> sp_state" where
  "write_znew st ix iy v =
     st\<lparr>heap := (heap st)(znew_ptr st := set_at (heap st (znew_ptr st)) ix iy v)\<rparr>"

text \<open>
  The four guarded additions of the loop body: the pair \<open>(ncount, pot)\<close> after them.
  \<open>Lx - 1\<close> is a subtraction of Python integers; the body only runs with \<open>ix < Lx\<close>
  and \<open>iy < Ly\<close>, where it agrees with the truncating subtraction of \<open>nat\<close>.
\<close>

definition neighbour_sum ::
  "nat \<Rightarrow> nat \<Rightarrow> (nat \<Rightarrow> nat \<Rightarrow> real) \<Rightarrow> nat \<Rightarrow> nat \<Rightarrow> real \<times> real" where
  "neighbour_sum Lx Ly zf ix iy =
     (let (ncount, pot) = (0, 0);
          (ncount, pot) = (if ix > 0 then (ncount + 1, pot + zf (ix - 1) iy) else (ncount, pot));
          (ncount, pot) = (if ix < Lx - 1 then (ncount + 1, pot + zf (ix + 1) iy) else (ncount, pot));
          (ncount, pot) = (if iy > 0 then (ncount + 1, pot + zf ix (iy - 1)) else (ncount, pot));
          (ncount, pot) = (if iy < Ly - 1 then (ncount + 1, pot + zf ix (iy + 1)) else (ncount, pot))
      in (ncount, pot))"

text \<open>
  The body of the two inner loops at one grid point. \<open>pot/ncount\<close> divides two
  floats; with \<open>ncount = 0.0\<close> it raises \<open>ZeroDivisionError\<close>.
\<close>

definition update_point ::
  "real option array2 \<Rightarrow> nat \<Rightarrow> nat \<Rightarrow> nat \<Rightarrow> nat \<Rightarrow> sp_state \<Rightarrow> error + sp_state" where
  "update_point b Lx Ly ix iy st =
     (if isnan (cell b ix iy) then
        (let (ncount, pot) = neighbour_sum Lx Ly (heap st (z_ptr st)) ix iy
         in if ncount = 0 then Inl ZeroDivisionError
            else Inr (write_znew st ix iy (pot / ncount)))
      else Inr (write_znew st ix iy (heap st (z_ptr st) ix iy)))"

definition swap_bufs :: "sp_state \<Rightarrow> sp_state" where
  "swap_bufs st = (let tmp_z = znew_ptr st in st\<lparr>znew_ptr := z_ptr st, z_ptr := tmp_z\<rparr>)"

definition sweep :: "real option array2 \<Rightarrow> nat \<Rightarrow> nat \<Rightarrow> sp_state \<Rightarrow> error + sp_state" where
  "sweep b Lx Ly st =
     (case for_each [0..<Lx] (\<lambda>ix. for_each [0..<Ly] (\<lambda>iy. update_point b Lx Ly ix iy)) st of
        Inl e \<Rightarrow> Inl e
      | Inr st' \<Rightarrow> Inr (swap_bufs st'))"

definition nan_to_zero :: "real option array2 \<Rightarrow> nat \<Rightarrow> nat \<Rightarrow> real" where
  "nan_to_zero b = (\<lambda>ix iy. case cell b ix iy of None \<Rightarrow> 0 | Some v \<Rightarrow> v)"

definition sp_init :: "real option array2 \<Rightarrow> sp_state" where
  "sp_init b = \<lparr>heap = (\<lambda>_. nan_to_zero b), z_ptr = BufA, znew_ptr = BufB\<rparr>"

definition solvepoisson :: "real option array2 \<Rightarrow> nat \<Rightarrow> error + real array2" where
  "solvepoisson b nrep =
     (let Lx = size0 b; Ly = size1 b
      in case for_each [0..<nrep] (\<lambda>n. sweep b Lx Ly) (sp_init b) of
           Inl e \<Rightarrow> Inl e
         | Inr st \<Rightarrow> Inr \<lparr>size0 = Lx, size1 = Ly, cell = heap st (z_ptr st)\<rparr>)"

subsection \<open>Jacobi relaxation, as the specification words it\<close>

text \<open>
  The in-grid neighbours of a point (above, below, left, right), the arithmetic mean of a
  field over them, one Jacobi sweep (a nan point of \<open>b\<close> takes the mean of its neighbours
  in the previous field, every other point keeps its value) and the field after \<open>k\<close>
  sweeps, started from \<open>b\<close> with nan replaced by 0. These follow the words of the
  specification; the solver above follows the code, and the two are compared below.
\<close>

definition neighbours :: "nat \<Rightarrow> nat \<Rightarrow> nat \<Rightarrow> nat \<Rightarrow> (nat \<times> nat) list" where
  "neighbours Lx Ly ix iy =
     (if 0 < ix then [(ix - 1, iy)] else []) @
     (if ix + 1 < Lx then [(ix + 1, iy)] else []) @
     (if 0 < iy then [(ix, iy - 1)] else []) @
     (if iy + 1 < Ly then [(ix, iy + 1)] else [])"

definition neighbour_mean :: "nat \<Rightarrow> nat \<Rightarrow> (nat \<Rightarrow> nat \<Rightarrow> real) \<Rightarrow> nat \<Rightarrow> nat \<Rightarrow> real" where
  "neighbour_mean Lx Ly zf ix iy =
     (\<Sum>p\<leftarrow>neighbours Lx Ly ix iy. zf (fst p) (snd p)) / real (length (neighbours Lx Ly ix iy))"

definition jacobi_sweep :: "real option array2 \<Rightarrow> (nat \<Rightarrow> nat \<Rightarrow> real) \<Rightarrow> nat \<Rightarrow> nat \<Rightarrow> real" where
  "jacobi_sweep b zf ix iy =
     (if ix < size0 b \<and> iy < size1 b \<and> cell b ix iy = None
      then neighbour_mean (size0 b) (size1 b) zf ix iy
      else zf ix iy)"

text \<open>The one grid on which a nan point has no neighbour.\<close>

definition degenerate :: "real option array2 \<Rightarrow> bool" where
  "degenerate b = (size0 b = 1 \<and> size1 b = 1 \<and> cell b 0 0 = None)"

text \<open>
  Two predicates for the proofs. \<open>row_done b st P st'\<close>: from \<open>st\<close> to \<open>st'\<close> the
  references and the array read are unchanged and the array written holds the swept
  value exactly at the points \<open>P\<close>. \<open>offgrid_agree\<close>: the two arrays agree outside the
  grid, where nothing is ever written.
\<close>

definition row_done :: "real option array2 \<Rightarrow> sp_state \<Rightarrow> (nat \<Rightarrow> nat \<Rightarrow> bool) \<Rightarrow> sp_state \<Rightarrow> bool" where
  "row_done b st P st' =
     (z_ptr st' = z_ptr st \<and> znew_ptr st' = znew_ptr st \<and>
      heap st' (z_ptr st) = heap st (z_ptr st) \<and>
      (\<forall>x y. heap st' (znew_ptr st) x y =
               (if P x y then jacobi_sweep b (heap st (z_ptr st)) x y
                else heap st (znew_ptr st) x y)))"

definition offgrid_agree :: "real option array2 \<Rightarrow> sp_state \<Rightarrow> bool" where
  "offgrid_agree b st =
     (\<forall>x y. \<not> (x < size0 b \<and> y < size1 b) \<longrightarrow> heap st (z_ptr st) x y = heap st (znew_ptr st) x y)"

fun jacobi :: "real option array2 \<Rightarrow> nat \<Rightarrow> nat \<Rightarrow> nat \<Rightarrow> real" where
  "jacobi b 0 = nan_to_zero b"
| "jacobi b (Suc k) = jacobi_sweep b (jacobi b k)"

text \<open>One cell of the result of a call that may raise.\<close>

definition cell_of :: "error + 'a array2 \<Rightarrow> nat \<Rightarrow> nat \<Rightarrow> error + 'a" where
  "cell_of res ix iy = (case res of Inl e \<Rightarrow> Inl e | Inr r \<Rightarrow> Inr (cell r ix iy))"

text \<open>Small boundary arrays on which the solver is evaluated.\<close>

definition b11 :: "real option array2" where
  "b11 = \<lparr>size0 = 1, size1 = 1, cell = (\<lambda>ix iy. None)\<rparr>"

definition b12 :: "real option array2" where
  "b12 = \<lparr>size0 = 1, size1 = 2, cell = (\<lambda>ix iy. if iy = 1 then Some 6 else None)\<rparr>"

definition b33 :: "real option array2" where
  "b33 = \<lparr>size0 = 3, size1 = 3,
           cell = (\<lambda>ix iy. if iy = 0 then Some 1 else if iy = 2 then Some 0 else None)\<rparr>"

section \<open>The lightning notebook: the path-growth loop\<close>

text \<open>
  \<open>s**eta\<close> on floats. The notebook sets \<open>eta = 1.0\<close>; the power with exponent 1.0 is its
  base and the power with exponent 0.0 is 1.0, both without rounding. For another
  exponent the embedding takes the rounded real power, which is the power of the code
  at a positive base, and at base 0 with a positive exponent (numpy yields inf at base
  0 with a negative exponent, and nan or a signed power at a negative base); the
  properties of the chosen point below are stated for \<open>eta = 1\<close>.
\<close>

definition float_pow :: "(real \<Rightarrow> real) \<Rightarrow> real \<Rightarrow> real \<Rightarrow> real" where
  "float_pow rnd x y = (if y = 1 then x else if y = 0 then 1 else rnd (x powr y))"

text \<open>
  The variables of the loop. All arrays have the shape \<open>(Lx, Ly)\<close> of the setup cell, so
  they are kept as their cells; \<open>s\<close> and \<open>sprob\<close> are recomputed in every iteration and
  are not part of the state.
\<close>

record lstate =
  b_arr :: "nat \<Rightarrow> nat \<Rightarrow> real option"
  zeroneighbor :: "nat \<Rightarrow> nat \<Rightarrow> real option"
  c_arr :: "nat \<Rightarrow> nat \<Rightarrow> real"
  ymin :: int
  ns :: nat

text \<open>
  \<open>np.argmax\<close> of the flattened array: the first index of a maximal element
  (\<open>ValueError\<close> on an empty array). \<open>flatten\<close> is the row-major order of numpy and
  \<open>unravel_index\<close> its inverse.
\<close>

fun argmax_from :: "real list \<Rightarrow> nat \<Rightarrow> nat \<Rightarrow> real \<Rightarrow> nat" where
  "argmax_from [] i best bv = best"
| "argmax_from (x # xs) i best bv =
     (if bv < x then argmax_from xs (Suc i) i x else argmax_from xs (Suc i) best bv)"

definition argmax :: "real list \<Rightarrow> error + nat" where
  "argmax xs = (case xs of [] \<Rightarrow> Inl ValueError | x # rest \<Rightarrow> Inr (argmax_from rest 1 0 x))"

text \<open>
  The array \<open>sprob\<close>: \<open>s**eta\<close>, times the uniform samples \<open>u\<close> (an argument: one array of
  samples per iteration), times \<open>np.isnan(zeroneighbor)\<close>, a boolean array read as 0 and
  1; each of the two products is rounded.
\<close>

definition sprob_field ::
  "(real \<Rightarrow> real) \<Rightarrow> real \<Rightarrow> (nat \<Rightarrow> nat \<Rightarrow> real) \<Rightarrow> (nat \<Rightarrow> nat \<Rightarrow> real) \<Rightarrow>
     (nat \<Rightarrow> nat \<Rightarrow> real option) \<Rightarrow> nat \<Rightarrow> nat \<Rightarrow> real" where
  "sprob_field rnd eta s u zn ix iy =
     rnd (rnd (float_pow rnd (s ix iy) eta * u ix iy) * (if isnan (zn ix iy) then 1 else 0))"

definition flatten :: "nat \<Rightarrow> nat \<Rightarrow> (nat \<Rightarrow> nat \<Rightarrow> 'a) \<Rightarrow> 'a list" where
  "flatten Lx Ly f = map (\<lambda>k. f (k div Ly) (k mod Ly)) [0..<Lx * Ly]"

definition unravel_index :: "nat \<Rightarrow> nat \<Rightarrow> nat \<Rightarrow> nat \<times> nat" where
  "unravel_index k Lx Ly = (k div Ly, k mod Ly)"

text \<open>
  \<open>np.unravel_index(np.argmax(sprob,axis=None),sprob.shape)\<close>: the point chosen in an
  array \<open>sprob\<close> of shape \<open>(Lx, Ly)\<close>.
\<close>

definition pick_point :: "nat \<Rightarrow> nat \<Rightarrow> (nat \<Rightarrow> nat \<Rightarrow> real) \<Rightarrow> error + nat \<times> nat" where
  "pick_point Lx Ly sprob =
     (case argmax (flatten Lx Ly sprob) of
        Inl e \<Rightarrow> Inl e
      | Inr k \<Rightarrow> Inr (unravel_index k Lx Ly))"

text \<open>
  The first half of the loop body: the solver, \<open>sprob\<close> and the chosen point. Like the
  solver, the loop is embedded in exact arithmetic.
\<close>

definition choose_point ::
  "nat \<Rightarrow> nat \<Rightarrow> nat \<Rightarrow> real \<Rightarrow> (nat \<Rightarrow> nat \<Rightarrow> real) \<Rightarrow> lstate \<Rightarrow> error + nat \<times> nat" where
  "choose_point Lx Ly nrep eta u st =
     (case solvepoisson \<lparr>size0 = Lx, size1 = Ly, cell = b_arr st\<rparr> nrep of
        Inl e \<Rightarrow> Inl e
      | Inr s \<Rightarrow> pick_point Lx Ly (sprob_field id eta (cell s) u (zeroneighbor st)))"

text \<open>The second half: the updates of \<open>b\<close>, \<open>zeroneighbor\<close>, \<open>ns\<close>, \<open>c\<close> and \<open>ymin\<close>.\<close>

definition mark_point :: "nat \<Rightarrow> nat \<Rightarrow> nat \<Rightarrow> nat \<Rightarrow> lstate \<Rightarrow> lstate" where
  "mark_point Lx Ly ix iy st =
     (let b = set_at (b_arr st) ix iy (Some 0);
          zn = zeroneighbor st;
          zn = (if ix > 0 then set_at zn (ix - 1) iy None else zn);
          zn = (if ix < Lx - 1 then set_at zn (ix + 1) iy None else zn);
          zn = (if iy > 0 then set_at zn ix (iy - 1) None else zn);
          zn = (if iy < Ly - 1 then set_at zn ix (iy + 1) None else zn);
          ns' = ns st + 1;
          c = set_at (c_arr st) ix iy (real ns');
          ymin' = (if int iy < ymin st then int iy else ymin st)
      in \<lparr>b_arr = b, zeroneighbor = zn, c_arr = c, ymin = ymin', ns = ns'\<rparr>)"

definition grow_step ::
  "nat \<Rightarrow> nat \<Rightarrow> nat \<Rightarrow> real \<Rightarrow> (nat \<Rightarrow> nat \<Rightarrow> real) \<Rightarrow> lstate \<Rightarrow> error + lstate" where
  "grow_step Lx Ly nrep eta u st =
     (case choose_point Lx Ly nrep eta u st of
        Inl e \<Rightarrow> Inl e
      | Inr (ix, iy) \<Rightarrow> Inr (mark_point Lx Ly ix iy st))"

text \<open>
  \<open>while (ymin>0)\<close>. Each iteration draws one array of samples; the loop is run on the
  list of the arrays drawn, and \<open>None\<close> says that the list ended while \<open>ymin > 0\<close>.
\<close>

fun lightning_loop ::
  "nat \<Rightarrow> nat \<Rightarrow> nat \<Rightarrow> real \<Rightarrow> (nat \<Rightarrow> nat \<Rightarrow> real) list \<Rightarrow> lstate \<Rightarrow> (error + lstate) option" where
  "lightning_loop Lx Ly nrep eta [] st = (if ymin st > 0 then None else Some (Inr st))"
| "lightning_loop Lx Ly nrep eta (u # us) st =
     (if ymin st > 0 then
        (case grow_step Lx Ly nrep eta u st of
           Inl e \<Rightarrow> Some (Inl e)
         | Inr st' \<Rightarrow> lightning_loop Lx Ly nrep eta us st')
      else Some (Inr st))"

text \<open>
  The state the two setup cells leave, for \<open>Ly \<ge> 2\<close> (the notebook has
  \<open>Lx = Ly = 50\<close>): \<open>b\<close> is 1 in column 0, 0 in column \<open>Ly - 1\<close> and nan elsewhere,
  \<open>zeroneighbor\<close> is nan in column \<open>Ly - 2\<close> and 0 elsewhere.
\<close>

definition lightning_init :: "nat \<Rightarrow> nat \<Rightarrow> lstate" where
  "lightning_init Lx Ly =
     \<lparr>b_arr = (\<lambda>ix iy. if iy = Ly - 1 then Some 0 else if iy = 0 then Some 1 else None),
      zeroneighbor = (\<lambda>ix iy. if iy = Ly - 2 then None else Some 0),
      c_arr = (\<lambda>ix iy. 0),
      ymin = int Ly - 1,
      ns = 0\<rparr>"

text \<open>The boundary array passed to the solver, with its shape.\<close>

definition grid_of :: "nat \<Rightarrow> nat \<Rightarrow> lstate \<Rightarrow> real option array2" where
  "grid_of Lx Ly st = \<lparr>size0 = Lx, size1 = Ly, cell = b_arr st\<rparr>"

text \<open>
  Two arrays of samples of \<open>np.random.uniform(0, 1, (Lx, Ly))\<close>, which draws from the
  half-open interval \<open>[0, 1)\<close>, and the value of the counter \<open>ns\<close> when the loop ends.
\<close>

definition zero_sample :: "nat \<Rightarrow> nat \<Rightarrow> real" where
  "zero_sample ix iy = 0"

definition half_sample :: "nat \<Rightarrow> nat \<Rightarrow> real" where
  "half_sample ix iy = 1 / 2"

definition loop_count :: "(error + lstate) option \<Rightarrow> nat option" where
  "loop_count res = (case res of Some (Inr st) \<Rightarrow> Some (ns st) | _ \<Rightarrow> None)"

section \<open>The molecular-dynamics notebook\<close>

text \<open>
  Vectors of the plane (\<open>dims = 2\<close>) and the numpy operations the notebook applies to
  them. A division of floats by 0 is not an exception in numpy: it yields nan (here
  always \<open>0/0\<close>, since every divisor is the norm of the dividend or follows a division by
  that norm). The reals have no nan, so the embedding is the code on positions where no
  divisor is 0, and a theorem whose conclusion depends on such a quotient assumes so.
\<close>

type_synonym vec = "real \<times> real"

definition vadd :: "vec \<Rightarrow> vec \<Rightarrow> vec" where
  "vadd a b = (fst a + fst b, snd a + snd b)"

definition vsub :: "vec \<Rightarrow> vec \<Rightarrow> vec" where
  "vsub a b = (fst a - fst b, snd a - snd b)"

definition vneg :: "vec \<Rightarrow> vec" where
  "vneg a = (- fst a, - snd a)"

definition vscale :: "vec \<Rightarrow> real \<Rightarrow> vec" where
  "vscale a k = (fst a * k, snd a * k)"

definition smul :: "real \<Rightarrow> vec \<Rightarrow> vec" where
  "smul k a = (k * fst a, k * snd a)"

definition vdiv :: "vec \<Rightarrow> real \<Rightarrow> vec" where
  "vdiv a k = (fst a / k, snd a / k)"

definition vnorm :: "vec \<Rightarrow> real" where
  "vnorm a = sqrt ((fst a)\<^sup>2 + (snd a)\<^sup>2)"

definition vsum :: "vec list \<Rightarrow> vec" where
  "vsum vs = foldr vadd vs (0, 0)"

text \<open>
  The same operations with the rounding of each arithmetic operation. \<open>np.linalg.norm\<close>
  is the square root of the sum of the squares.
\<close>

definition vadd_r :: "(real \<Rightarrow> real) \<Rightarrow> vec \<Rightarrow> vec \<Rightarrow> vec" where
  "vadd_r rnd a c = (rnd (fst a + fst c), rnd (snd a + snd c))"

definition vsub_r :: "(real \<Rightarrow> real) \<Rightarrow> vec \<Rightarrow> vec \<Rightarrow> vec" where
  "vsub_r rnd a c = (rnd (fst a - fst c), rnd (snd a - snd c))"

definition vscale_r :: "(real \<Rightarrow> real) \<Rightarrow> vec \<Rightarrow> real \<Rightarrow> vec" where
  "vscale_r rnd a k = (rnd (fst a * k), rnd (snd a * k))"

definition vdiv_r :: "(real \<Rightarrow> real) \<Rightarrow> vec \<Rightarrow> real \<Rightarrow> vec" where
  "vdiv_r rnd a k = (rnd (fst a / k), rnd (snd a / k))"

definition vnorm_r :: "(real \<Rightarrow> real) \<Rightarrow> vec \<Rightarrow> real" where
  "vnorm_r rnd a = rnd (sqrt (rnd (rnd (fst a * fst a) + rnd (snd a * snd a))))"

text \<open>The constants of the notebook.\<close>

definition u_amu :: real where "u_amu = 1.66053906660 / 10 ^ 27"
definition e_charge :: real where "e_charge = 1.602176634 / 10 ^ 19"
definition vac_perm :: real where "vac_perm = 8.8541878128 / 10 ^ 12"
definition k_e :: real where "k_e = 1 / (4 * pi * vac_perm)"
definition partial_charge :: real where "partial_charge = 0.1811 * e_charge"
definition charge_H :: real where "charge_H = partial_charge"
definition charge_Cl :: real where "charge_Cl = - partial_charge"
definition mass_H :: real where "mass_H = 1.00794 * u_amu"
definition mass_Cl :: real where "mass_Cl = 35.4527 * u_amu"
definition bond_length :: real where "bond_length = 0.13 / 10 ^ 9"
definition k_spring :: real where "k_spring = 481"

text \<open>
  The constants of the bond force as floats: each literal and each product is rounded
  (\<open>k_spring\<close> is an integer).
\<close>

definition u_amu_r :: "(real \<Rightarrow> real) \<Rightarrow> real" where
  "u_amu_r rnd = rnd (1.66053906660 / 10 ^ 27)"

definition mass_H_r :: "(real \<Rightarrow> real) \<Rightarrow> real" where
  "mass_H_r rnd = rnd (rnd 1.00794 * u_amu_r rnd)"

definition mass_Cl_r :: "(real \<Rightarrow> real) \<Rightarrow> real" where
  "mass_Cl_r rnd = rnd (rnd 35.4527 * u_amu_r rnd)"

definition bond_length_r :: "(real \<Rightarrow> real) \<Rightarrow> real" where
  "bond_length_r rnd = rnd (0.13 / 10 ^ 9)"

text \<open>
  The simulation parameters are set in a cell of their own and are taken as parameters
  here; the notebook's values are \<open>num_molecules = 16\<close>, \<open>timesteps = 5000\<close> and
  \<open>dt = 5e-17\<close>.
\<close>

record params =
  num_molecules :: nat
  timesteps :: nat
  dt :: real

definition notebook_params :: params where
  "notebook_params = \<lparr>num_molecules = 16, timesteps = 5000, dt = 5 / 10 ^ 17\<rparr>"




text \<open>The arrays of the simulation, indexed by timestep and molecule, and the printed lines.\<close>

datatype line = Progress nat nat | Summary nat nat

record md_state =
  position_H :: "nat \<Rightarrow> nat \<Rightarrow> vec"
  position_Cl :: "nat \<Rightarrow> nat \<Rightarrow> vec"
  velocity_H :: "nat \<Rightarrow> nat \<Rightarrow> vec"
  velocity_Cl :: "nat \<Rightarrow> nat \<Rightarrow> vec"
  acceleration_H :: "nat \<Rightarrow> nat \<Rightarrow> vec"
  acceleration_Cl :: "nat \<Rightarrow> nat \<Rightarrow> vec"
  coulomb_acc_H :: "nat \<Rightarrow> nat \<Rightarrow> vec"
  coulomb_acc_Cl :: "nat \<Rightarrow> nat \<Rightarrow> vec"
  spring_acc_H :: "nat \<Rightarrow> nat \<Rightarrow> vec"
  spring_acc_Cl :: "nat \<Rightarrow> nat \<Rightarrow> vec"
  printed :: "line list"

text \<open>
  The bond force on the two atoms of one molecule (the body of the first inner loop),
  with the rounding of its operations; the loop is embedded in exact arithmetic.
\<close>

definition spring_acc_r :: "(real \<Rightarrow> real) \<Rightarrow> vec \<Rightarrow> vec \<Rightarrow> vec \<times> vec" where
  "spring_acc_r rnd pos_H pos_Cl =
     (let spring_difference = vsub_r rnd pos_Cl pos_H;
          spring_distance = vnorm_r rnd spring_difference;
          spring_unitvector = vdiv_r rnd spring_difference spring_distance;
          spring_force = rnd (k_spring * rnd (spring_distance - bond_length_r rnd))
      in (vdiv_r rnd (vscale_r rnd spring_unitvector spring_force) (mass_H_r rnd),
          vdiv_r rnd (vscale_r rnd (vneg spring_unitvector) spring_force) (mass_Cl_r rnd)))"

definition spring_acc :: "vec \<Rightarrow> vec \<Rightarrow> vec \<times> vec" where
  "spring_acc = spring_acc_r id"

definition spring_body :: "nat \<Rightarrow> nat \<Rightarrow> md_state \<Rightarrow> md_state" where
  "spring_body t i st =
     (let a = spring_acc (position_H st t i) (position_Cl st t i)
      in st\<lparr>spring_acc_H := set_at (spring_acc_H st) t i (fst a),
             spring_acc_Cl := set_at (spring_acc_Cl st) t i (snd a)\<rparr>)"

text \<open>
  The Coulomb force of the atom at \<open>rb\<close> with charge \<open>qb\<close> on the atom at \<open>ra\<close> with
  charge \<open>qa\<close>, and the second inner loop: \<open>coulomb_mask\<close> selects the molecules other
  than \<open>i\<close>, in increasing order.
\<close>

definition coulomb_force :: "real \<Rightarrow> real \<Rightarrow> vec \<Rightarrow> vec \<Rightarrow> vec" where
  "coulomb_force qa qb ra rb =
     (let coulomb_difference = vsub ra rb;
          coulomb_distance = vnorm coulomb_difference;
          coulomb_unitvector = vdiv coulomb_difference coulomb_distance
      in vdiv (smul (k_e * qa * qb) coulomb_unitvector) (coulomb_distance\<^sup>2))"

definition coulomb_mask :: "nat \<Rightarrow> nat \<Rightarrow> nat list" where
  "coulomb_mask n i = filter (\<lambda>j. j \<noteq> i) [0..<n]"

definition coulomb_acc :: "nat \<Rightarrow> (nat \<Rightarrow> vec) \<Rightarrow> (nat \<Rightarrow> vec) \<Rightarrow> nat \<Rightarrow> vec \<times> vec" where
  "coulomb_acc n pos_H pos_Cl i =
     (let coulomb_force_H_H = map (\<lambda>j. coulomb_force charge_H charge_H (pos_H i) (pos_H j)) (coulomb_mask n i);
          coulomb_force_H_Cl = map (\<lambda>j. coulomb_force charge_H charge_Cl (pos_H i) (pos_Cl j)) (coulomb_mask n i);
          coulomb_force_Cl_H = map (\<lambda>j. coulomb_force charge_Cl charge_H (pos_Cl i) (pos_H j)) (coulomb_mask n i);
          coulomb_force_Cl_Cl = map (\<lambda>j. coulomb_force charge_Cl charge_Cl (pos_Cl i) (pos_Cl j)) (coulomb_mask n i)
      in (vdiv (vadd (vsum coulomb_force_H_H) (vsum coulomb_force_H_Cl)) mass_H,
          vdiv (vadd (vsum coulomb_force_Cl_H) (vsum coulomb_force_Cl_Cl)) mass_Cl))"

definition coulomb_body :: "nat \<Rightarrow> nat \<Rightarrow> nat \<Rightarrow> md_state \<Rightarrow> md_state" where
  "coulomb_body n t i st =
     (let a = coulomb_acc n (position_H st t) (position_Cl st t) i
      in st\<lparr>coulomb_acc_H := set_at (coulomb_acc_H st) t i (fst a),
             coulomb_acc_Cl := set_at (coulomb_acc_Cl st) t i (snd a)\<rparr>)"

text \<open>The sum of the accelerations and the Euler-Cromer update, on whole rows.\<close>

definition integrate :: "real \<Rightarrow> nat \<Rightarrow> md_state \<Rightarrow> md_state" where
  "integrate h t st =
     (let st = st\<lparr>acceleration_H := (acceleration_H st)
                   (t := \<lambda>i. vadd (coulomb_acc_H st t i) (spring_acc_H st t i))\<rparr>;
          st = st\<lparr>acceleration_Cl := (acceleration_Cl st)
                   (t := \<lambda>i. vadd (coulomb_acc_Cl st t i) (spring_acc_Cl st t i))\<rparr>;
          st = st\<lparr>velocity_H := (velocity_H st)
                   (t + 1 := \<lambda>i. vadd (velocity_H st t i) (vscale (acceleration_H st t i) h))\<rparr>;
          st = st\<lparr>velocity_Cl := (velocity_Cl st)
                   (t + 1 := \<lambda>i. vadd (velocity_Cl st t i) (vscale (acceleration_Cl st t i) h))\<rparr>;
          st = st\<lparr>position_H := (position_H st)
                   (t + 1 := \<lambda>i. vadd (position_H st t i) (vscale (velocity_H st (t + 1) i) h))\<rparr>;
          st = st\<lparr>position_Cl := (position_Cl st)
                   (t + 1 := \<lambda>i. vadd (position_Cl st t i) (vscale (velocity_Cl st (t + 1) i) h))\<rparr>
      in st)"

text \<open>
  The progress line. \<open>int(timesteps/20)\<close> is the integer quotient; \<open>t % 0\<close> raises
  \<open>ZeroDivisionError\<close>, and \<open>and\<close> does not evaluate it when \<open>t = 0\<close>.
\<close>

definition py_mod :: "nat \<Rightarrow> nat \<Rightarrow> error + nat" where
  "py_mod a b = (if b = 0 then Inl ZeroDivisionError else Inr (a mod b))"

definition progress :: "nat \<Rightarrow> nat \<Rightarrow> md_state \<Rightarrow> error + md_state" where
  "progress n_steps t st =
     (if t \<noteq> 0 then
        (case py_mod t (n_steps div 20) of
           Inl e \<Rightarrow> Inl e
         | Inr r \<Rightarrow> if r = 0 then Inr (st\<lparr>printed := printed st @ [Progress t n_steps]\<rparr>)
                    else Inr st)
      else Inr st)"

definition md_step :: "params \<Rightarrow> nat \<Rightarrow> md_state \<Rightarrow> error + md_state" where
  "md_step p t st =
     (let st = fold (spring_body t) [0..<num_molecules p] st;
          st = fold (coulomb_body (num_molecules p) t) [0..<num_molecules p] st;
          st = integrate (dt p) t st
      in progress (timesteps p) t st)"

definition md_loop :: "params \<Rightarrow> md_state \<Rightarrow> error + md_state" where
  "md_loop p st = for_each [0..<timesteps p - 1] (md_step p) st"

text \<open>The whole cell: the loop and the line printed after it (without the elapsed time).\<close>

definition md_run :: "params \<Rightarrow> md_state \<Rightarrow> error + md_state" where
  "md_run p st =
     (case md_loop p st of
        Inl e \<Rightarrow> Inl e
      | Inr st' \<Rightarrow> Inr (st'\<lparr>printed := printed st' @ [Summary (num_molecules p) (timesteps p)]\<rparr>))"

text \<open>The number of times the body of a \<open>for\<close> loop is entered.\<close>

fun iterations :: "nat list \<Rightarrow> (nat \<Rightarrow> 's \<Rightarrow> error + 's) \<Rightarrow> 's \<Rightarrow> nat" where
  "iterations [] body st = 0"
| "iterations (i # is) body st =
     (case body i st of Inl e \<Rightarrow> 1 | Inr st' \<Rightarrow> 1 + iterations is body st')"

text \<open>
  For the proofs: \<open>step_ok p st t\<close> says that the rows of the arrays hold what iteration
  \<open>t\<close> of the loop computes, and \<open>md_core\<close> is the body of the loop before its progress
  line.
\<close>

definition step_ok :: "params \<Rightarrow> md_state \<Rightarrow> nat \<Rightarrow> bool" where
  "step_ok p st t =
     (\<forall>i<num_molecules p.
        spring_acc_H st t i = fst (spring_acc (position_H st t i) (position_Cl st t i)) \<and>
        spring_acc_Cl st t i = snd (spring_acc (position_H st t i) (position_Cl st t i)) \<and>
        coulomb_acc_H st t i =
          fst (coulomb_acc (num_molecules p) (position_H st t) (position_Cl st t) i) \<and>
        coulomb_acc_Cl st t i =
          snd (coulomb_acc (num_molecules p) (position_H st t) (position_Cl st t) i) \<and>
        acceleration_H st t i = vadd (coulomb_acc_H st t i) (spring_acc_H st t i) \<and>
        acceleration_Cl st t i = vadd (coulomb_acc_Cl st t i) (spring_acc_Cl st t i) \<and>
        velocity_H st (t + 1) i = vadd (velocity_H st t i) (vscale (acceleration_H st t i) (dt p)) \<and>
        velocity_Cl st (t + 1) i = vadd (velocity_Cl st t i) (vscale (acceleration_Cl st t i) (dt p)) \<and>
        position_H st (t + 1) i = vadd (position_H st t i) (vscale (velocity_H st (t + 1) i) (dt p)) \<and>
        position_Cl st (t + 1) i = vadd (position_Cl st t i) (vscale (velocity_Cl st (t + 1) i) (dt p)))"

definition md_core :: "params \<Rightarrow> nat \<Rightarrow> md_state \<Rightarrow> md_state" where
  "md_core p t st =
     integrate (dt p) t
       (fold (coulomb_body (num_molecules p) t) [0..<num_molecules p]
          (fold (spring_body t) [0..<num_molecules p] st))"

text \<open>The arrays as the notebook initialises them, and two rows of positions for examples.\<close>

definition md_init :: "(nat \<Rightarrow> vec) \<Rightarrow> (nat \<Rightarrow> vec) \<Rightarrow> md_state" where
  "md_init hydrogen chlorine =
     \<lparr>position_H = (\<lambda>t i. (0, 0))(0 := hydrogen),
      position_Cl = (\<lambda>t i. (0, 0))(0 := chlorine),
      velocity_H = (\<lambda>t i. (0, 0)),
      velocity_Cl = (\<lambda>t i. (0, 0)),
      acceleration_H = (\<lambda>t i. (0, 0)),
      acceleration_Cl = (\<lambda>t i. (0, 0)),
      coulomb_acc_H = (\<lambda>t i. (0, 0)),
      coulomb_acc_Cl = (\<lambda>t i. (0, 0)),
      spring_acc_H = (\<lambda>t i. (0, 0)),
      spring_acc_Cl = (\<lambda>t i. (0, 0)),
      printed = []\<rparr>"

definition example_H :: "nat \<Rightarrow> vec" where
  "example_H i = (real i, 0)"

definition example_Cl :: "nat \<Rightarrow> vec" where
  "example_Cl i = (real i, 1)"

text \<open>
  A loop of 19 iterations on two molecules on a line, H at 0 and 3 and Cl at 1 and 4 on
  the x axis.
\<close>

definition small_params :: params where
  "small_params = \<lparr>num_molecules = 2, timesteps = 20, dt = 1 / 2\<rparr>"

definition line_H :: "nat \<Rightarrow> vec" where
  "line_H i = (if i = 0 then (0, 0) else (3, 0))"

definition line_Cl :: "nat \<Rightarrow> vec" where
  "line_Cl i = (if i = 0 then (1, 0) else (4, 0))"

definition line_run :: "error + md_state" where
  "line_run = md_loop small_params (md_init line_H line_Cl)"




subsection \<open>The forces, as the specification words them\<close>

text \<open>
  The distance of two atoms, and the Coulomb term \<open>k_e * q_a * q_b / d\<^sup>2\<close> along the unit
  vector from the atom at \<open>c\<close> to the atom at \<open>a\<close>. \<open>apart n pH pCl\<close> says that no two
  of the atoms of the molecules below \<open>n\<close> are at the same position: then no distance is
  0 and no quotient of the two inner loops is \<open>0/0\<close>.
\<close>

definition distance :: "vec \<Rightarrow> vec \<Rightarrow> real" where
  "distance a c = sqrt ((fst a - fst c)\<^sup>2 + (snd a - snd c)\<^sup>2)"

definition coulomb_term :: "real \<Rightarrow> real \<Rightarrow> vec \<Rightarrow> vec \<Rightarrow> vec" where
  "coulomb_term q_a q_b a c =
     (k_e * q_a * q_b / (distance a c)\<^sup>2 * ((fst a - fst c) / distance a c),
      k_e * q_a * q_b / (distance a c)\<^sup>2 * ((snd a - snd c) / distance a c))"

definition apart :: "nat \<Rightarrow> (nat \<Rightarrow> vec) \<Rightarrow> (nat \<Rightarrow> vec) \<Rightarrow> bool" where
  "apart n pH pCl =
     (\<forall>i<n. \<forall>j<n. pH i \<noteq> pCl j \<and> (i \<noteq> j \<longrightarrow> pH i \<noteq> pH j \<and> pCl i \<noteq> pCl j))"

section \<open>Properties of the rounding\<close>

lemma round_even_near:
  assumes "\<bar>x - of_int m\<bar> < 1 / 2"
  shows "round_even x = m"
proof -
  have "\<lfloor>x\<rfloor> = m \<or> \<lfloor>x\<rfloor> = m - 1" using assms by linarith
  then show ?thesis
  proof
    assume f: "\<lfloor>x\<rfloor> = m"
    then have "x - of_int m < 1 / 2" using assms by linarith
    with f show ?thesis by (simp add: round_even_def)
  next
    assume f: "\<lfloor>x\<rfloor> = m - 1"
    have "- (1 / 2) < x - of_int m" using assms by linarith
    then have "1 / 2 < x - of_int (m - 1)" by simp
    with f show ?thesis by (simp add: round_even_def Let_def)
  qed
qed

lemma round_even_minus: "round_even (- x) = - round_even x"
proof (cases "\<exists>m. \<bar>x - of_int m\<bar> < 1 / 2")
  case True
  then obtain m where m: "\<bar>x - of_int m\<bar> < 1 / 2" by blast
  have e: "- x - real_of_int (- m) = - (x - of_int m)" by simp
  have "\<bar>- x - of_int (- m)\<bar> < 1 / 2" unfolding e abs_minus using m .
  then have "round_even (- x) = - m" by (rule round_even_near)
  with round_even_near [OF m] show ?thesis by simp
next
  case False
  then have a: "\<not> \<bar>x - of_int \<lfloor>x\<rfloor>\<bar> < 1 / 2" "\<not> \<bar>x - of_int (\<lfloor>x\<rfloor> + 1)\<bar> < 1 / 2"
    by blast+
  have "x - of_int \<lfloor>x\<rfloor> = 1 / 2" using a by simp
  then have x: "x = of_int \<lfloor>x\<rfloor> + 1 / 2" by simp
  have "- x = of_int (- \<lfloor>x\<rfloor> - 1) + 1 / 2" by (subst x) simp
  then have f: "\<lfloor>- x\<rfloor> = - \<lfloor>x\<rfloor> - 1" by linarith
  have d: "- x - of_int (- \<lfloor>x\<rfloor> - 1) = 1 / 2" "x - of_int \<lfloor>x\<rfloor> = 1 / 2"
    using x by simp_all
  show ?thesis
    unfolding round_even_def Let_def f d by simp
qed

lemma float64_minus: "float64 (- x) = - float64 x"
  by (simp add: float64_def Let_def round_even_minus)

lemma float64_binade:
  assumes "2 powr (52 + of_int e) \<le> \<bar>x\<bar>" "\<bar>x\<bar> < 2 powr (53 + of_int e)"
  shows "float64 x = of_int (round_even (x / 2 powr of_int e)) * 2 powr of_int e"
proof -
  have pos: "0 < \<bar>x\<bar>" using assms(1) by (smt (verit) powr_gt_zero)
  have "of_int (52 + e) \<le> log 2 \<bar>x\<bar>"
    using assms(1) pos by (simp add: le_log_iff)
  moreover have "log 2 \<bar>x\<bar> < of_int (52 + e) + 1"
    using assms(2) pos by (simp add: log_less_iff add.commute)
  ultimately have "\<lfloor>log 2 \<bar>x\<bar>\<rfloor> = 52 + e" by (rule floor_unique)
  moreover have "x \<noteq> 0" using pos by auto
  ultimately show ?thesis by (simp add: float64_def)
qed

lemma float64_down:
  assumes "2 ^ 52 \<le> \<bar>x\<bar> * 2 ^ k" "\<bar>x\<bar> * 2 ^ k < 2 ^ 53" "\<bar>x * 2 ^ k - of_int m\<bar> < 1 / 2"
  shows "float64 x = of_int m / 2 ^ k"
proof -
  have p: "2 powr (- real k) = 1 / 2 ^ k" "2 powr (real k) = 2 ^ k"
    by (simp_all add: powr_minus powr_realpow divide_inverse)
  have "(2::real) powr (52 + of_int (- int k)) = 2 powr 52 * 2 powr (- real k)"
    by (simp only: powr_add of_int_minus of_int_of_nat_eq)
  then have a': "(2::real) powr (52 + of_int (- int k)) = 2 ^ 52 / 2 ^ k"
    by (simp add: p)
  have "(2::real) powr (53 + of_int (- int k)) = 2 powr 53 * 2 powr (- real k)"
    by (simp only: powr_add of_int_minus of_int_of_nat_eq)
  then have b': "(2::real) powr (53 + of_int (- int k)) = 2 ^ 53 / 2 ^ k"
    by (simp add: p)
  have a: "2 powr (52 + of_int (- int k)) \<le> \<bar>x\<bar>"
    unfolding a' using assms(1) by (simp add: field_simps)
  have b: "\<bar>x\<bar> < 2 powr (53 + of_int (- int k))"
    unfolding b' using assms(2) by (simp add: field_simps)
  have "x / 2 powr of_int (- int k) = x * 2 ^ k" by (simp add: p)
  with float64_binade [OF a b] round_even_near [OF assms(3)] show ?thesis
    by (simp add: p)
qed

lemma float64_up:
  assumes "2 ^ 52 \<le> \<bar>x\<bar> / 2 ^ k" "\<bar>x\<bar> / 2 ^ k < 2 ^ 53" "\<bar>x / 2 ^ k - of_int m\<bar> < 1 / 2"
  shows "float64 x = of_int m * 2 ^ k"
proof -
  have p: "2 powr (real k) = 2 ^ k"
    by (simp add: powr_realpow)
  have "(2::real) powr (52 + of_int (int k)) = 2 powr 52 * 2 powr (real k)"
    by (simp only: powr_add of_int_of_nat_eq)
  then have a': "(2::real) powr (52 + of_int (int k)) = 2 ^ 52 * 2 ^ k"
    by (simp add: p)
  have "(2::real) powr (53 + of_int (int k)) = 2 powr 53 * 2 powr (real k)"
    by (simp only: powr_add of_int_of_nat_eq)
  then have b': "(2::real) powr (53 + of_int (int k)) = 2 ^ 53 * 2 ^ k"
    by (simp add: p)
  have a: "2 powr (52 + of_int (int k)) \<le> \<bar>x\<bar>"
    unfolding a' using assms(1) by (simp add: field_simps)
  have b: "\<bar>x\<bar> < 2 powr (53 + of_int (int k))"
    unfolding b' using assms(2) by (simp add: field_simps)
  from float64_binade [OF a b] round_even_near [OF assms(3)] show ?thesis
    by (simp add: p)
qed

lemma float64_0: "float64 0 = 0"
  by (simp add: float64_def)

lemma float64_small_ints: "float64 1 = 1" "float64 5 = 5" "float64 25 = 25"
  using float64_down [of 1 52 "2 ^ 52"] float64_down [of 5 50 "5 * 2 ^ 50"]
    float64_down [of 25 48 "25 * 2 ^ 48"] by simp_all

lemma bond_length_float64: "bond_length_r float64 = 5029131409596857 / 2 ^ 85"
  unfolding bond_length_r_def
  using float64_down [of "0.13 / 10 ^ 9" 85 5029131409596857] by simp

lemma u_amu_float64: "u_amu_r float64 = 4628907327056559 / 2 ^ 141"
  unfolding u_amu_r_def
  using float64_down [of "1.66053906660 / 10 ^ 27" 141 4628907327056559] by simp

lemma mass_H_float64: "mass_H_r float64 = 4665660851233388 / 2 ^ 141"
proof -
  have c: "float64 1.00794 = 4539358208411818 / 2 ^ 52"
    using float64_down [of "1.00794" 52 4539358208411818] by simp
  show ?thesis
    unfolding mass_H_r_def c u_amu_float64
    using float64_down [of "4539358208411818 / 2 ^ 52 * (4628907327056559 / 2 ^ 141)" 141 4665660851233388]
    by simp
qed

lemma mass_Cl_float64: "mass_Cl_r float64 = 5128351962310565 / 2 ^ 136"
proof -
  have c: "float64 35.4527 = 4989523953414937 / 2 ^ 47"
    using float64_down [of "35.4527" 47 4989523953414937] by simp
  show ?thesis
    unfolding mass_Cl_r_def c u_amu_float64
    using float64_down [of "4989523953414937 / 2 ^ 47 * (4628907327056559 / 2 ^ 141)" 136 5128351962310565]
    by simp
qed

lemma sqrt_25: "sqrt 25 = 5"
  by (rule real_sqrt_unique) simp_all

lemma spring_force_float64:
  "float64 (k_spring * float64 (5 - bond_length_r float64)) = 5288650929465055 / 2 ^ 41"
proof -
  have t: "float64 (5 - 5029131409596857 / 2 ^ 85) = 5629499534066753 / 2 ^ 50"
    using float64_down [of "5 - 5029131409596857 / 2 ^ 85" 50 5629499534066753] by simp
  show ?thesis
    unfolding bond_length_float64 t k_spring_def
    using float64_down [of "481 * (5629499534066753 / 2 ^ 50)" 41 5288650929465055] by simp
qed

lemma float64_force: "float64 (5288650929465055 / 2 ^ 41) = 5288650929465055 / 2 ^ 41"
  "float64 (- (5288650929465055 / 2 ^ 41)) = - (5288650929465055 / 2 ^ 41)"
  using float64_down [of "5288650929465055 / 2 ^ 41" 41 5288650929465055]
    float64_down [of "- (5288650929465055 / 2 ^ 41)" 41 "- 5288650929465055"] by simp_all

lemma acc_H_float64:
  "float64 (5288650929465055 / 2 ^ 41 / (4665660851233388 / 2 ^ 141)) = 5104950212773195 * 2 ^ 48"
  using float64_up [of "5288650929465055 / 2 ^ 41 / (4665660851233388 / 2 ^ 141)" 48 5104950212773195]
  by simp

lemma acc_Cl_float64:
  "float64 (- (5288650929465055 / 2 ^ 41) / (5128351962310565 / 2 ^ 136)) = - (4644370458633719 * 2 ^ 43)"
  using float64_up [of "- (5288650929465055 / 2 ^ 41) / (5128351962310565 / 2 ^ 136)" 43 "- 4644370458633719"]
  by simp

lemma spring_parts_float64:
  "vsub_r float64 (0, 5) (0, 0) = (0, 5)"
  "vnorm_r float64 (0, 5) = 5"
  "vdiv_r float64 (0, 5) 5 = (0, 1)"
  "vscale_r float64 (0, 1) (5288650929465055 / 2 ^ 41) = (0, 5288650929465055 / 2 ^ 41)"
proof -
  show "vsub_r float64 (0, 5) (0, 0) = (0, 5)"
    by (simp add: vsub_r_def float64_0 float64_small_ints)
  show "vnorm_r float64 (0, 5) = 5"
    by (simp add: vnorm_r_def float64_0 float64_small_ints sqrt_25)
  show "vdiv_r float64 (0, 5) 5 = (0, 1)"
    by (simp add: vdiv_r_def float64_0 float64_small_ints)
  show "vscale_r float64 (0, 1) (5288650929465055 / 2 ^ 41) = (0, 5288650929465055 / 2 ^ 41)"
    by (simp only: vscale_r_def fst_conv snd_conv mult_zero_left mult_1_left float64_0 float64_force)
qed

lemma spring_acc_float64:
  "spring_acc_r float64 (0, 0) (0, 5) =
     ((0, 5104950212773195 * 2 ^ 48), (0, - (4644370458633719 * 2 ^ 43)))"
proof -
  have s2: "vscale_r float64 (vneg (0, 1)) (5288650929465055 / 2 ^ 41) = (0, - (5288650929465055 / 2 ^ 41))"
    by (simp only: vscale_r_def vneg_def fst_conv snd_conv minus_zero mult_zero_left mult_minus_left
        mult_1_left float64_0 float64_force)
  have a1: "vdiv_r float64 (0, 5288650929465055 / 2 ^ 41) (4665660851233388 / 2 ^ 141)
      = (0, 5104950212773195 * 2 ^ 48)"
    by (simp only: vdiv_r_def fst_conv snd_conv div_0 float64_0 acc_H_float64)
  have a2: "vdiv_r float64 (0, - (5288650929465055 / 2 ^ 41)) (5128351962310565 / 2 ^ 136)
      = (0, - (4644370458633719 * 2 ^ 43))"
    by (simp only: vdiv_r_def fst_conv snd_conv div_0 float64_0 acc_Cl_float64)
  show ?thesis
    by (simp only: spring_acc_r_def Let_def spring_parts_float64 spring_force_float64 s2
        mass_H_float64 mass_Cl_float64 a1 a2)
qed

lemma residual_float64:
  "float64 (float64 (mass_H_r float64 * (5104950212773195 * 2 ^ 48))
     + float64 (mass_Cl_r float64 * (- (4644370458633719 * 2 ^ 43)))) = - (1 / 2 ^ 41)"
proof -
  have p1: "float64 (4665660851233388 / 2 ^ 141 * (5104950212773195 * 2 ^ 48)) = 5288650929465055 / 2 ^ 41"
    using float64_down [of "4665660851233388 / 2 ^ 141 * (5104950212773195 * 2 ^ 48)" 41 5288650929465055]
    by simp
  have p2: "float64 (5128351962310565 / 2 ^ 136 * (- (4644370458633719 * 2 ^ 43))) = - (5288650929465056 / 2 ^ 41)"
    using float64_down [of "5128351962310565 / 2 ^ 136 * (- (4644370458633719 * 2 ^ 43))" 41 "- 5288650929465056"]
    by simp
  have s: "float64 (5288650929465055 / 2 ^ 41 + - (5288650929465056 / 2 ^ 41)) = - (1 / 2 ^ 41)"
    using float64_down [of "5288650929465055 / 2 ^ 41 + - (5288650929465056 / 2 ^ 41)" 93 "- (2 ^ 52)"]
    by simp
  show ?thesis
    unfolding mass_H_float64 mass_Cl_float64 p1 p2 s by (rule refl)
qed



section \<open>Properties of the Poisson solver\<close>

lemma neighbour_sum_eq:
  "neighbour_sum Lx Ly zf ix iy =
     (real (length (neighbours Lx Ly ix iy)), \<Sum>p\<leftarrow>neighbours Lx Ly ix iy. zf (fst p) (snd p))"
  by (simp add: neighbour_sum_def neighbours_def less_diff_conv)

lemma neighbours_empty_iff:
  "ix < Lx \<Longrightarrow> iy < Ly \<Longrightarrow> neighbours Lx Ly ix iy = [] \<longleftrightarrow> Lx = 1 \<and> Ly = 1"
  by (auto simp: neighbours_def)

lemma update_point_ok:
  assumes "ix < size0 b" "iy < size1 b" "\<not> degenerate b"
  shows "update_point b (size0 b) (size1 b) ix iy st =
           Inr (write_znew st ix iy (jacobi_sweep b (heap st (z_ptr st)) ix iy))"
proof (cases "cell b ix iy")
  case None
  have "neighbours (size0 b) (size1 b) ix iy \<noteq> []"
  proof
    assume "neighbours (size0 b) (size1 b) ix iy = []"
    with assms(1,2) have "size0 b = 1 \<and> size1 b = 1"
      by (simp add: neighbours_empty_iff)
    with assms None show False by (simp add: degenerate_def)
  qed
  with None assms(1,2) show ?thesis
    by (simp add: update_point_def isnan_def neighbour_sum_eq jacobi_sweep_def neighbour_mean_def)
next
  case (Some v)
  then show ?thesis
    by (simp add: update_point_def isnan_def jacobi_sweep_def)
qed

lemma row_done_write:
  assumes "z_ptr st \<noteq> znew_ptr st" "row_done b st P st'"
  shows "row_done b st (\<lambda>x y. P x y \<or> (x = ix \<and> y = iy))
           (write_znew st' ix iy (jacobi_sweep b (heap st' (z_ptr st')) ix iy))"
  using assms by (auto simp: row_done_def write_znew_def set_at_def)

lemma row_done_refl: "row_done b st (\<lambda>x y. False) st"
  by (simp add: row_done_def)

lemma row_done_cong: "row_done b st P st' \<Longrightarrow> (\<And>x y. P x y = Q x y) \<Longrightarrow> row_done b st Q st'"
  by (simp add: row_done_def)

lemma row_loop:
  assumes "z_ptr st \<noteq> znew_ptr st" "\<not> degenerate b" "ix < size0 b"
  shows "row_done b st P st' \<Longrightarrow> \<forall>y\<in>set ys. y < size1 b \<Longrightarrow>
    \<exists>st''. for_each ys (\<lambda>iy. update_point b (size0 b) (size1 b) ix iy) st' = Inr st'' \<and>
       row_done b st (\<lambda>x y. P x y \<or> (x = ix \<and> y \<in> set ys)) st''"
proof (induction ys arbitrary: st' P)
  case Nil
  then show ?case by simp
next
  case (Cons y ys)
  let ?st1 = "write_znew st' ix y (jacobi_sweep b (heap st' (z_ptr st')) ix y)"
  have step: "update_point b (size0 b) (size1 b) ix y st' = Inr ?st1"
    using Cons.prems assms by (simp add: update_point_ok)
  have rd: "row_done b st (\<lambda>x ya. P x ya \<or> (x = ix \<and> ya = y)) ?st1"
    using row_done_write [OF assms(1) Cons.prems(1)] .
  from Cons.IH [OF rd] Cons.prems(2)
  obtain st'' where
    "for_each ys (\<lambda>iy. update_point b (size0 b) (size1 b) ix iy) ?st1 = Inr st''"
    "row_done b st (\<lambda>x ya. (P x ya \<or> (x = ix \<and> ya = y)) \<or> (x = ix \<and> ya \<in> set ys)) st''"
    by auto
  then show ?case
    using step by (auto elim: row_done_cong)
qed

lemma grid_loop:
  assumes "z_ptr st \<noteq> znew_ptr st" "\<not> degenerate b"
  shows "row_done b st P st' \<Longrightarrow> \<forall>x\<in>set xs. x < size0 b \<Longrightarrow>
    \<exists>st''. for_each xs (\<lambda>ix. for_each [0..<size1 b] (\<lambda>iy. update_point b (size0 b) (size1 b) ix iy)) st' = Inr st'' \<and>
       row_done b st (\<lambda>x y. P x y \<or> (x \<in> set xs \<and> y < size1 b)) st''"
proof (induction xs arbitrary: st' P)
  case Nil
  then show ?case by simp
next
  case (Cons x xs)
  from row_loop [OF assms, of x P st' "[0..<size1 b]"] Cons.prems
  obtain st1 where
    s1: "for_each [0..<size1 b] (\<lambda>iy. update_point b (size0 b) (size1 b) x iy) st' = Inr st1"
    and rd: "row_done b st (\<lambda>xa y. P xa y \<or> (xa = x \<and> y \<in> set [0..<size1 b])) st1"
    by auto
  from Cons.IH [OF rd] Cons.prems(2)
  obtain st'' where
    "for_each xs (\<lambda>ix. for_each [0..<size1 b] (\<lambda>iy. update_point b (size0 b) (size1 b) ix iy)) st1 = Inr st''"
    "row_done b st (\<lambda>xa y. (P xa y \<or> (xa = x \<and> y \<in> set [0..<size1 b])) \<or> (xa \<in> set xs \<and> y < size1 b)) st''"
    by auto
  then show ?case
    using s1 by (auto elim: row_done_cong)
qed

lemma sweep_ok:
  assumes "z_ptr st \<noteq> znew_ptr st" "\<not> degenerate b" "offgrid_agree b st"
  shows "\<exists>st'. sweep b (size0 b) (size1 b) st = Inr st' \<and> z_ptr st' \<noteq> znew_ptr st' \<and>
           offgrid_agree b st' \<and> heap st' (z_ptr st') = jacobi_sweep b (heap st (z_ptr st))"
proof -
  from grid_loop [OF assms(1,2) row_done_refl, of "[0..<size0 b]"]
  obtain st1 where
    run: "for_each [0..<size0 b]
            (\<lambda>ix. for_each [0..<size1 b] (\<lambda>iy. update_point b (size0 b) (size1 b) ix iy)) st = Inr st1"
    and rd: "row_done b st (\<lambda>x y. False \<or> (x \<in> set [0..<size0 b] \<and> y < size1 b)) st1"
    by auto
  have eq: "heap st1 (znew_ptr st) = jacobi_sweep b (heap st (z_ptr st))"
  proof (intro ext)
    fix x y
    show "heap st1 (znew_ptr st) x y = jacobi_sweep b (heap st (z_ptr st)) x y"
      using rd assms(3) by (auto simp: row_done_def offgrid_agree_def jacobi_sweep_def)
  qed
  have "sweep b (size0 b) (size1 b) st = Inr (swap_bufs st1)"
    using run by (simp add: sweep_def)
  moreover have "z_ptr (swap_bufs st1) \<noteq> znew_ptr (swap_bufs st1)"
    using rd assms(1) by (auto simp: row_done_def swap_bufs_def)
  moreover have "heap (swap_bufs st1) (z_ptr (swap_bufs st1)) = jacobi_sweep b (heap st (z_ptr st))"
    using rd eq by (simp add: row_done_def swap_bufs_def)
  moreover have "offgrid_agree b (swap_bufs st1)"
    using rd eq assms(3) by (auto simp: row_done_def swap_bufs_def offgrid_agree_def jacobi_sweep_def)
  ultimately show ?thesis by blast
qed

lemma sweeps_ok:
  assumes "\<not> degenerate b"
  shows "z_ptr st \<noteq> znew_ptr st \<Longrightarrow> offgrid_agree b st \<Longrightarrow>
    \<exists>st'. for_each ks (\<lambda>n. sweep b (size0 b) (size1 b)) st = Inr st' \<and>
      heap st' (z_ptr st') = (jacobi_sweep b ^^ length ks) (heap st (z_ptr st))"
proof (induction ks arbitrary: st)
  case Nil
  then show ?case by simp
next
  case (Cons n ks)
  from sweep_ok [OF Cons.prems(1) assms Cons.prems(2)]
  obtain st1 where s1: "sweep b (size0 b) (size1 b) st = Inr st1"
    and p1: "z_ptr st1 \<noteq> znew_ptr st1" "offgrid_agree b st1"
    and h1: "heap st1 (z_ptr st1) = jacobi_sweep b (heap st (z_ptr st))"
    by blast
  from Cons.IH [OF p1]
  obtain st' where "for_each ks (\<lambda>n. sweep b (size0 b) (size1 b)) st1 = Inr st'"
    "heap st' (z_ptr st') = (jacobi_sweep b ^^ length ks) (heap st1 (z_ptr st1))"
    by blast
  then show ?case
    using s1 h1 by (simp add: funpow_swap1)
qed

lemma jacobi_funpow: "jacobi b k = (jacobi_sweep b ^^ k) (nan_to_zero b)"
  by (induction k) simp_all

lemma solvepoisson_regular:
  assumes "\<not> degenerate b"
  shows "solvepoisson b nrep = Inr \<lparr>size0 = size0 b, size1 = size1 b, cell = jacobi b nrep\<rparr>"
proof -
  have "z_ptr (sp_init b) \<noteq> znew_ptr (sp_init b)" "offgrid_agree b (sp_init b)"
    by (simp_all add: sp_init_def offgrid_agree_def)
  from sweeps_ok [OF assms this, of "[0..<nrep]"]
  show ?thesis
    by (auto simp: solvepoisson_def Let_def jacobi_funpow sp_init_def)
qed

lemma solvepoisson_zero: "solvepoisson b 0 = Inr \<lparr>size0 = size0 b, size1 = size1 b, cell = jacobi b 0\<rparr>"
  by (simp add: solvepoisson_def sp_init_def)

lemma solvepoisson_degenerate:
  assumes "degenerate b" "0 < nrep"
  shows "solvepoisson b nrep = Inl ZeroDivisionError"
proof -
  obtain k where k: "nrep = Suc k" using assms(2) by (cases nrep) auto
  have "[0..<Suc k] = 0 # [1..<Suc k]" by (simp add: upt_rec)
  moreover have "sweep b 1 1 (sp_init b) = Inl ZeroDivisionError"
    using assms(1)
    by (simp add: sweep_def update_point_def isnan_def neighbour_sum_def degenerate_def)
  ultimately show ?thesis
    using assms(1) k by (simp add: solvepoisson_def degenerate_def)
qed

lemma jacobi_frame: "cell b ix iy = Some v \<Longrightarrow> jacobi b k ix iy = v"
  by (induction k) (simp_all add: nan_to_zero_def jacobi_sweep_def)

lemma neighbours_length_le: "length (neighbours Lx Ly ix iy) \<le> 4"
  by (simp add: neighbours_def)

lemma neighbours_length_ge2:
  "ix < Lx \<Longrightarrow> iy < Ly \<Longrightarrow> 2 \<le> Lx \<Longrightarrow> 2 \<le> Ly \<Longrightarrow> 2 \<le> length (neighbours Lx Ly ix iy)"
  by (auto simp: neighbours_def)

lemma neighbours_length_ge1:
  "ix < Lx \<Longrightarrow> iy < Ly \<Longrightarrow> 2 \<le> Lx \<or> 2 \<le> Ly \<Longrightarrow> 1 \<le> length (neighbours Lx Ly ix iy)"
  by (auto simp: neighbours_def)

lemma update_point_error_iff:
  assumes "ix < Lx" "iy < Ly"
  shows "update_point b Lx Ly ix iy st = Inl e \<longleftrightarrow>
           e = ZeroDivisionError \<and> Lx = 1 \<and> Ly = 1 \<and> cell b ix iy = None"
  using assms neighbours_empty_iff [OF assms]
  by (auto simp: update_point_def isnan_def neighbour_sum_eq)

lemma solvepoisson_cases:
  "solvepoisson b nrep =
     (if degenerate b \<and> 0 < nrep then Inl ZeroDivisionError
      else Inr \<lparr>size0 = size0 b, size1 = size1 b, cell = jacobi b nrep\<rparr>)"
  using solvepoisson_regular [of b nrep] solvepoisson_degenerate [of b nrep]
    solvepoisson_zero [of b]
  by (cases "nrep = 0") auto

section \<open>Properties of the path-growth loop\<close>

lemma argmax_from_inv:
  assumes "ys = pre @ xs" "best < length pre" "bv = ys ! best"
    "\<forall>j<length pre. ys ! j \<le> bv" "\<forall>j<best. ys ! j < bv"
  shows "argmax_from xs (length pre) best bv < length ys \<and>
         (\<forall>j<length ys. ys ! j \<le> ys ! argmax_from xs (length pre) best bv) \<and>
         (\<forall>j<argmax_from xs (length pre) best bv. ys ! j < ys ! argmax_from xs (length pre) best bv)"
  using assms
proof (induction xs arbitrary: pre best bv)
  case Nil
  then show ?case by simp
next
  case (Cons x xs)
  have ys: "ys = (pre @ [x]) @ xs" using Cons.prems(1) by simp
  have x: "x = ys ! length pre" using Cons.prems(1) by simp
  have len: "length (pre @ [x]) = Suc (length pre)" by simp
  show ?case
  proof (cases "bv < x")
    case True
    have p1: "length pre < length (pre @ [x])" by simp
    have p3: "\<forall>j<length (pre @ [x]). ys ! j \<le> x"
    proof (intro allI impI)
      fix j assume "j < length (pre @ [x])"
      then have "j < length pre \<or> j = length pre" unfolding len by arith
      then show "ys ! j \<le> x"
      proof
        assume "j < length pre"
        with Cons.prems(4) have "ys ! j \<le> bv" by blast
        with True show ?thesis by linarith
      next
        assume "j = length pre"
        with x show ?thesis by simp
      qed
    qed
    have p4: "\<forall>j<length pre. ys ! j < x"
    proof (intro allI impI)
      fix j assume "j < length pre"
      with Cons.prems(4) have "ys ! j \<le> bv" by blast
      with True show "ys ! j < x" by linarith
    qed
    have "argmax_from (x # xs) (length pre) best bv = argmax_from xs (length (pre @ [x])) (length pre) x"
      using True unfolding len by simp
    with Cons.IH [OF ys p1 x p3 p4] show ?thesis by metis
  next
    case False
    have p1: "best < length (pre @ [x])" using Cons.prems(2) unfolding len by arith
    have p3: "\<forall>j<length (pre @ [x]). ys ! j \<le> bv"
    proof (intro allI impI)
      fix j assume "j < length (pre @ [x])"
      then have "j < length pre \<or> j = length pre" unfolding len by arith
      then show "ys ! j \<le> bv"
      proof
        assume "j < length pre"
        with Cons.prems(4) show ?thesis by blast
      next
        assume "j = length pre"
        with x False show ?thesis by simp
      qed
    qed
    have "argmax_from (x # xs) (length pre) best bv = argmax_from xs (length (pre @ [x])) best bv"
      using False unfolding len by simp
    with Cons.IH [OF ys p1 Cons.prems(3) p3 Cons.prems(5)] show ?thesis by metis
  qed
qed

lemma argmax_props:
  assumes "xs \<noteq> []"
  shows "\<exists>k. argmax xs = Inr k \<and> k < length xs \<and> (\<forall>j < length xs. xs ! j \<le> xs ! k) \<and>
           (\<forall>j < k. xs ! j < xs ! k)"
proof -
  obtain x rest where xs: "xs = x # rest" using assms by (cases xs) auto
  have a: "argmax xs = Inr (argmax_from rest (length [x]) 0 x)"
    by (simp add: argmax_def xs)
  have "xs = [x] @ rest" "(0::nat) < length [x]" "x = xs ! 0" "\<forall>j<length [x]. xs ! j \<le> x"
    "\<forall>j<(0::nat). xs ! j < x"
    by (simp_all add: xs)
  from argmax_from_inv [OF this] a show ?thesis
    by blast
qed

lemma argmax_all_equal:
  assumes "xs \<noteq> []" "\<forall>j<length xs. xs ! j = v"
  shows "argmax xs = Inr 0"
proof -
  from argmax_props [OF assms(1)] obtain k where
    k: "argmax xs = Inr k" "k < length xs" "\<forall>j < k. xs ! j < xs ! k"
    by blast
  have "k = 0"
  proof (rule ccontr)
    assume "k \<noteq> 0"
    then have k0: "0 < k" by simp
    with k(3) have "xs ! 0 < xs ! k" by blast
    moreover have "0 < length xs" using k(2) k0 by arith
    then have "xs ! 0 = v" using assms(2) by blast
    moreover have "xs ! k = v" using assms(2) k(2) by simp
    ultimately show False by simp
  qed
  with k(1) show ?thesis by simp
qed

lemma length_flatten: "length (flatten Lx Ly f) = Lx * Ly"
  by (simp add: flatten_def)

lemma nth_flatten: "k < Lx * Ly \<Longrightarrow> flatten Lx Ly f ! k = f (k div Ly) (k mod Ly)"
  by (simp add: flatten_def)

lemma flat_index:
  assumes "jx < Lx" "jy < (Ly::nat)"
  shows "jx * Ly + jy < Lx * Ly" "(jx * Ly + jy) div Ly = jx" "(jx * Ly + jy) mod Ly = jy"
proof -
  have "jx * Ly + jy < jx * Ly + Ly" using assms(2) by simp
  also have "\<dots> = Suc jx * Ly" by simp
  also have "\<dots> \<le> Lx * Ly" using assms(1) by (intro mult_le_mono1) simp
  finally show "jx * Ly + jy < Lx * Ly" .
  show "(jx * Ly + jy) div Ly = jx" using assms(2) by simp
  show "(jx * Ly + jy) mod Ly = jy" using assms(2) by simp
qed

lemma unflat_index:
  assumes "k < Lx * (Ly::nat)"
  shows "k div Ly < Lx" "k mod Ly < Ly" "(k div Ly) * Ly + k mod Ly = k"
proof -
  have Ly: "0 < Ly" using assms by (cases Ly) auto
  show "k div Ly < Lx" using assms Ly by (simp add: less_mult_imp_div_less)
  show "k mod Ly < Ly" using Ly by simp
  show "(k div Ly) * Ly + k mod Ly = k" by simp
qed

lemma pick_point_props:
  assumes "0 < Lx" "0 < Ly"
  shows "\<exists>ix iy. ix < Lx \<and> iy < Ly \<and>
     pick_point Lx Ly F = Inr (ix, iy) \<and>
     (\<forall>jx<Lx. \<forall>jy<Ly. F jx jy \<le> F ix iy) \<and>
     (\<forall>jx<Lx. \<forall>jy<Ly. jx * Ly + jy < ix * Ly + iy \<longrightarrow> F jx jy < F ix iy)"
proof -
  let ?xs = "flatten Lx Ly F"
  have "0 < Lx * Ly" using assms(1,2) by simp
  then have ne: "?xs \<noteq> []" using length_flatten [of Lx Ly F] by auto
  from argmax_props [OF ne] obtain k where
    k: "argmax ?xs = Inr k" "k < length ?xs" "\<forall>j<length ?xs. ?xs ! j \<le> ?xs ! k"
       "\<forall>j<k. ?xs ! j < ?xs ! k"
    by blast
  have kl: "k < Lx * Ly" using k(2) by (simp add: length_flatten)
  have kv: "?xs ! k = F (k div Ly) (k mod Ly)" using kl by (rule nth_flatten)
  have cp: "pick_point Lx Ly F = Inr (k div Ly, k mod Ly)"
    using k(1) by (simp add: pick_point_def unravel_index_def)
  have mx: "\<forall>jx<Lx. \<forall>jy<Ly. F jx jy \<le> F (k div Ly) (k mod Ly)"
  proof (intro allI impI)
    fix jx jy assume j: "jx < Lx" "jy < Ly"
    from flat_index [OF j] have "jx * Ly + jy < length ?xs"
      "?xs ! (jx * Ly + jy) = F jx jy"
      by (simp_all add: length_flatten nth_flatten)
    with k(3) kv show "F jx jy \<le> F (k div Ly) (k mod Ly)" by metis
  qed
  have fst: "\<forall>jx<Lx. \<forall>jy<Ly. jx * Ly + jy < (k div Ly) * Ly + k mod Ly \<longrightarrow>
      F jx jy < F (k div Ly) (k mod Ly)"
  proof (intro allI impI)
    fix jx jy assume j: "jx < Lx" "jy < Ly" and lt: "jx * Ly + jy < (k div Ly) * Ly + k mod Ly"
    from lt have "jx * Ly + jy < k" by simp
    moreover from flat_index [OF j] have "?xs ! (jx * Ly + jy) = F jx jy"
      by (simp add: nth_flatten)
    ultimately show "F jx jy < F (k div Ly) (k mod Ly)" using k(4) kv by metis
  qed
  from unflat_index [OF kl] cp mx fst show ?thesis by blast
qed

lemma choose_point_props:
  assumes "0 < Lx" "0 < Ly" "\<not> (degenerate (grid_of Lx Ly st) \<and> 0 < nrep)"
  shows "\<exists>ix iy. ix < Lx \<and> iy < Ly \<and>
     choose_point Lx Ly nrep eta u st = Inr (ix, iy) \<and>
     (\<forall>jx<Lx. \<forall>jy<Ly.
        sprob_field id eta (jacobi (grid_of Lx Ly st) nrep) u (zeroneighbor st) jx jy
          \<le> sprob_field id eta (jacobi (grid_of Lx Ly st) nrep) u (zeroneighbor st) ix iy) \<and>
     (\<forall>jx<Lx. \<forall>jy<Ly. jx * Ly + jy < ix * Ly + iy \<longrightarrow>
        sprob_field id eta (jacobi (grid_of Lx Ly st) nrep) u (zeroneighbor st) jx jy
          < sprob_field id eta (jacobi (grid_of Lx Ly st) nrep) u (zeroneighbor st) ix iy)"
proof -
  let ?F = "sprob_field id eta (jacobi (grid_of Lx Ly st) nrep) u (zeroneighbor st)"
  have sp: "solvepoisson \<lparr>size0 = Lx, size1 = Ly, cell = b_arr st\<rparr> nrep =
      Inr \<lparr>size0 = Lx, size1 = Ly, cell = jacobi (grid_of Lx Ly st) nrep\<rparr>"
    using assms(3) solvepoisson_cases [of "grid_of Lx Ly st" nrep]
    by (simp add: grid_of_def)
  then have "choose_point Lx Ly nrep eta u st = pick_point Lx Ly ?F"
    by (simp add: choose_point_def)
  with pick_point_props [OF assms(1,2), of ?F] show ?thesis by simp
qed

lemma cond_set_at:
  "(if c then set_at f a b v else f) jx jy = (if c \<and> jx = a \<and> jy = b then v else f jx jy)"
  by (simp add: set_at_def)

lemma mem_neighbours:
  "(jx, jy) \<in> set (neighbours Lx Ly ix iy) \<longleftrightarrow>
     (0 < ix \<and> jx = ix - 1 \<and> jy = iy) \<or> (ix < Lx - 1 \<and> jx = ix + 1 \<and> jy = iy) \<or>
     (0 < iy \<and> jx = ix \<and> jy = iy - 1) \<or> (iy < Ly - 1 \<and> jx = ix \<and> jy = iy + 1)"
  unfolding neighbours_def less_diff_conv by (simp split: if_splits) blast

lemma mark_zeroneighbor:
  "(let zn = zeroneighbor st;
          zn = (if ix > 0 then set_at zn (ix - 1) iy None else zn);
          zn = (if ix < Lx - 1 then set_at zn (ix + 1) iy None else zn);
          zn = (if iy > 0 then set_at zn ix (iy - 1) None else zn);
          zn = (if iy < Ly - 1 then set_at zn ix (iy + 1) None else zn)
        in zn) = (\<lambda>jx jy. if (jx, jy) \<in> set (neighbours Lx Ly ix iy) then None
                               else zeroneighbor st jx jy)"
proof (intro ext)
  fix jx jy
  show "(let zn = zeroneighbor st;
          zn = (if ix > 0 then set_at zn (ix - 1) iy None else zn);
          zn = (if ix < Lx - 1 then set_at zn (ix + 1) iy None else zn);
          zn = (if iy > 0 then set_at zn ix (iy - 1) None else zn);
          zn = (if iy < Ly - 1 then set_at zn ix (iy + 1) None else zn)
        in zn) jx jy = (if (jx, jy) \<in> set (neighbours Lx Ly ix iy) then None
                               else zeroneighbor st jx jy)"
    unfolding Let_def cond_set_at mem_neighbours by presburger
qed

lemma mark_point_eq:
  "mark_point Lx Ly ix iy st =
     \<lparr>b_arr = (b_arr st)(ix := (b_arr st ix)(iy := Some 0)),
      zeroneighbor = (\<lambda>jx jy. if (jx, jy) \<in> set (neighbours Lx Ly ix iy) then None
                               else zeroneighbor st jx jy),
      c_arr = (c_arr st)(ix := (c_arr st ix)(iy := real (ns st + 1))),
      ymin = min (ymin st) (int iy),
      ns = ns st + 1\<rparr>"
  unfolding mark_zeroneighbor [symmetric]
  by (simp add: mark_point_def Let_def set_at_def min_def)

lemma lightning_loop_done: "ymin st \<le> 0 \<Longrightarrow> lightning_loop Lx Ly nrep eta us st = Some (Inr st)"
  by (cases us) simp_all

lemma lightning_loop_step:
  assumes "0 < ymin st" "choose_point Lx Ly nrep eta u st = Inr (ix, iy)"
  shows "lightning_loop Lx Ly nrep eta (u # us) st =
           (if iy = 0 then Some (Inr (mark_point Lx Ly ix iy st))
            else lightning_loop Lx Ly nrep eta us (mark_point Lx Ly ix iy st))"
proof (cases "iy = 0")
  case True
  then have "ymin (mark_point Lx Ly ix iy st) \<le> 0"
    using assms(1) by (simp add: mark_point_eq)
  then show ?thesis
    using assms True by (simp add: grow_step_def lightning_loop_done)
next
  case False
  then show ?thesis using assms by (simp add: grow_step_def)
qed

lemma choose_point_zero_sample:
  assumes "0 < Lx" "0 < Ly" "\<not> (degenerate (grid_of Lx Ly st) \<and> 0 < nrep)"
  shows "choose_point Lx Ly nrep eta zero_sample st = Inr (0, 0)"
proof -
  let ?F = "sprob_field id eta (jacobi (grid_of Lx Ly st) nrep) zero_sample (zeroneighbor st)"
  have sp: "solvepoisson \<lparr>size0 = Lx, size1 = Ly, cell = b_arr st\<rparr> nrep =
      Inr \<lparr>size0 = Lx, size1 = Ly, cell = jacobi (grid_of Lx Ly st) nrep\<rparr>"
    using assms(3) solvepoisson_cases [of "grid_of Lx Ly st" nrep]
    by (simp add: grid_of_def)
  have "0 < Lx * Ly" using assms(1,2) by simp
  then have ne: "flatten Lx Ly ?F \<noteq> []" using length_flatten [of Lx Ly ?F] by auto
  have "\<forall>j<length (flatten Lx Ly ?F). flatten Lx Ly ?F ! j = 0"
    by (simp add: length_flatten nth_flatten sprob_field_def zero_sample_def)
  from argmax_all_equal [OF ne this] sp show ?thesis
    by (simp add: choose_point_def pick_point_def unravel_index_def)
qed

lemma sum_list_pos:
  fixes xs :: "real list"
  assumes "\<forall>x\<in>set xs. 0 \<le> x" "y \<in> set xs"
  shows "y \<le> sum_list xs"
  using assms
proof (induction xs)
  case Nil
  then show ?case by simp
next
  case (Cons x xs)
  have nn: "0 \<le> sum_list xs" using Cons.prems(1) by (intro sum_list_nonneg) simp
  show ?case
  proof (cases "y = x")
    case True
    with nn show ?thesis by simp
  next
    case False
    with Cons.prems have "y \<in> set xs" "\<forall>x\<in>set xs. 0 \<le> x" "0 \<le> x" by auto
    with Cons.IH have "y \<le> sum_list xs" by blast
    with \<open>0 \<le> x\<close> show ?thesis by simp
  qed
qed

lemma jacobi_sweep_nonneg:
  assumes "\<forall>ix iy. 0 \<le> zf ix iy"
  shows "0 \<le> jacobi_sweep b zf ix iy"
proof -
  have "0 \<le> (\<Sum>p\<leftarrow>neighbours (size0 b) (size1 b) ix iy. zf (fst p) (snd p))"
    using assms by (intro sum_list_nonneg) auto
  then show ?thesis
    using assms by (simp add: jacobi_sweep_def neighbour_mean_def)
qed

lemma jacobi_init_nonneg: "0 \<le> jacobi (grid_of Lx Ly (lightning_init Lx Ly)) k ix iy"
proof (induction k arbitrary: ix iy)
  case 0
  show ?case by (simp add: nan_to_zero_def grid_of_def lightning_init_def)
next
  case (Suc k)
  then show ?case by (simp add: jacobi_sweep_nonneg)
qed

lemma jacobi_init_pos:
  assumes "ix < Lx" "iy \<le> k" "iy < Ly - 1"
  shows "0 < jacobi (grid_of Lx Ly (lightning_init Lx Ly)) k ix iy"
  using assms
proof (induction k arbitrary: ix iy)
  case 0
  then show ?case by (simp add: nan_to_zero_def grid_of_def lightning_init_def)
next
  case (Suc k)
  let ?b = "grid_of Lx Ly (lightning_init Lx Ly)"
  show ?case
  proof (cases "iy = 0")
    case True
    with Suc.prems have "cell ?b ix iy = Some 1"
      by (simp add: grid_of_def lightning_init_def)
    then have "jacobi ?b (Suc k) ix iy = 1" by (rule jacobi_frame)
    then show ?thesis by simp
  next
    case False
    with Suc.prems have c: "cell ?b ix iy = None" "ix < size0 ?b" "iy < size1 ?b"
      by (simp_all add: grid_of_def lightning_init_def)
    let ?ps = "neighbours (size0 ?b) (size1 ?b) ix iy"
    let ?vs = "map (\<lambda>p. jacobi ?b k (fst p) (snd p)) ?ps"
    have mem: "(ix, iy - 1) \<in> set ?ps"
      using False by (simp add: mem_neighbours)
    have "0 < jacobi ?b k ix (iy - 1)"
      using Suc.prems False by (intro Suc.IH) auto
    moreover have "jacobi ?b k ix (iy - 1) \<in> set ?vs"
      using mem by force
    moreover have "\<forall>x\<in>set ?vs. 0 \<le> x"
      by (auto simp: jacobi_init_nonneg)
    ultimately have "0 < sum_list ?vs"
      using sum_list_pos [of ?vs "jacobi ?b k ix (iy - 1)"] by linarith
    moreover have "0 < length ?ps" using mem by (cases ?ps) auto
    ultimately have "0 < neighbour_mean (size0 ?b) (size1 ?b) (jacobi ?b k) ix iy"
      by (simp add: neighbour_mean_def)
    with c show ?thesis by (simp add: jacobi_sweep_def)
  qed
qed

lemma choose_point_half_sample:
  assumes "0 < Lx" "2 \<le> Ly" "Ly - 2 \<le> nrep"
  shows "\<exists>ix. choose_point Lx Ly nrep 1 half_sample (lightning_init Lx Ly) = Inr (ix, Ly - 2)"
proof -
  let ?st = "lightning_init Lx Ly"
  let ?F = "sprob_field id 1 (jacobi (grid_of Lx Ly ?st) nrep) half_sample (zeroneighbor ?st)"
  have nd: "\<not> (degenerate (grid_of Lx Ly ?st) \<and> 0 < nrep)"
    using assms(2) by (simp add: degenerate_def grid_of_def)
  from choose_point_props [OF assms(1) _ nd, of 1 half_sample] assms(2)
  obtain ix iy where p: "ix < Lx" "iy < Ly"
    "choose_point Lx Ly nrep 1 half_sample ?st = Inr (ix, iy)"
    "\<forall>jx<Lx. \<forall>jy<Ly. ?F jx jy \<le> ?F ix iy"
    by auto
  have "0 < jacobi (grid_of Lx Ly ?st) nrep 0 (Ly - 2)"
    using assms by (intro jacobi_init_pos) auto
  then have "0 < ?F 0 (Ly - 2)"
    by (simp add: sprob_field_def float_pow_def half_sample_def isnan_def lightning_init_def)
  moreover have "?F 0 (Ly - 2) \<le> ?F ix iy" using p(4) assms(1,2) by simp
  ultimately have "0 < ?F ix iy" by linarith
  then have "iy = Ly - 2"
    by (simp add: sprob_field_def isnan_def lightning_init_def split: if_splits)
  with p(3) show ?thesis by blast
qed

lemma loop_zero_sample_first:
  assumes "0 < Lx" "2 \<le> Ly"
  shows "lightning_loop Lx Ly nrep eta (zero_sample # us) (lightning_init Lx Ly) =
           Some (Inr (mark_point Lx Ly 0 0 (lightning_init Lx Ly)))"
proof -
  let ?st = "lightning_init Lx Ly"
  have nd: "\<not> (degenerate (grid_of Lx Ly ?st) \<and> 0 < nrep)"
    using assms(2) by (simp add: degenerate_def grid_of_def)
  have y: "0 < ymin ?st" using assms(2) by (simp add: lightning_init_def)
  have "choose_point Lx Ly nrep eta zero_sample ?st = Inr (0, 0)"
    using assms nd by (intro choose_point_zero_sample) auto
  from lightning_loop_step [OF y this] show ?thesis by simp
qed

lemma loop_half_then_zero:
  assumes "0 < Lx" "3 \<le> Ly" "Ly - 2 \<le> nrep"
  shows "\<exists>ix. lightning_loop Lx Ly nrep 1 (half_sample # zero_sample # us) (lightning_init Lx Ly) =
           Some (Inr (mark_point Lx Ly 0 0 (mark_point Lx Ly ix (Ly - 2) (lightning_init Lx Ly))))"
proof -
  let ?st = "lightning_init Lx Ly"
  have y: "0 < ymin ?st" using assms(2) by (simp add: lightning_init_def)
  from choose_point_half_sample [of Lx Ly nrep] assms
  obtain ix where c1: "choose_point Lx Ly nrep 1 half_sample ?st = Inr (ix, Ly - 2)"
    by auto
  let ?st1 = "mark_point Lx Ly ix (Ly - 2) ?st"
  have ne: "Ly - 2 \<noteq> 0" using assms(2) by simp
  have l1: "lightning_loop Lx Ly nrep 1 (half_sample # zero_sample # us) ?st =
      lightning_loop Lx Ly nrep 1 (zero_sample # us) ?st1"
    using lightning_loop_step [OF y c1, of "zero_sample # us"] ne by simp
  have y1: "0 < ymin ?st1"
    using assms(2) by (simp add: mark_point_eq lightning_init_def)
  have nd: "\<not> (degenerate (grid_of Lx Ly ?st1) \<and> 0 < nrep)"
    using assms(2) by (simp add: degenerate_def grid_of_def)
  have "choose_point Lx Ly nrep 1 zero_sample ?st1 = Inr (0, 0)"
    using assms nd by (intro choose_point_zero_sample) auto
  from lightning_loop_step [OF y1 this, of us] l1 show ?thesis by auto
qed

section \<open>Properties of the molecular-dynamics loop\<close>

lemma multiples_below:
  assumes "0 < (d::nat)"
  shows "[t\<leftarrow>[0..<n]. t \<noteq> 0 \<and> t mod d = 0] = map (\<lambda>k. k * d) [1..<Suc ((n - 1) div d)]"
proof (rule sorted_distinct_set_unique)
  show "sorted [t\<leftarrow>[0..<n]. t \<noteq> 0 \<and> t mod d = 0]" by (simp add: sorted_wrt_filter)
  show "distinct [t\<leftarrow>[0..<n]. t \<noteq> 0 \<and> t mod d = 0]" by simp
  have "sorted_wrt (\<lambda>x y. x * d \<le> y * d) [1..<Suc ((n - 1) div d)]"
    by (rule sorted_wrt_mono_rel [OF _ sorted_upt]) simp
  then show "sorted (map (\<lambda>k. k * d) [1..<Suc ((n - 1) div d)])"
    by (simp only: sorted_wrt_map)
  show "distinct (map (\<lambda>k. k * d) [1..<Suc ((n - 1) div d)])"
    using assms by (simp add: distinct_map inj_on_def)
  show "set [t\<leftarrow>[0..<n]. t \<noteq> 0 \<and> t mod d = 0] = set (map (\<lambda>k. k * d) [1..<Suc ((n - 1) div d)])"
  proof (intro set_eqI iffI)
    fix t assume "t \<in> set [t\<leftarrow>[0..<n]. t \<noteq> 0 \<and> t mod d = 0]"
    then have t: "t < n" "t \<noteq> 0" "t mod d = 0" by auto
    then have td: "t = (t div d) * d" by auto
    have "t div d \<noteq> 0" using t(2) td by (metis mult_0)
    moreover have "t div d \<le> (n - 1) div d" using t(1) by (intro div_le_mono) simp
    ultimately have "t div d \<in> set [1..<Suc ((n - 1) div d)]" by auto
    with td show "t \<in> set (map (\<lambda>k. k * d) [1..<Suc ((n - 1) div d)])"
      by (metis (mono_tags, lifting) image_eqI set_map)
  next
    fix t assume "t \<in> set (map (\<lambda>k. k * d) [1..<Suc ((n - 1) div d)])"
    then have "t \<in> (\<lambda>k. k * d) ` {1..<Suc ((n - 1) div d)}"
      by (simp only: set_map set_upt)
    then obtain k where kk: "k \<in> {1..<Suc ((n - 1) div d)}" and k1: "t = k * d"
      by (rule imageE)
    from kk have "1 \<le> k \<and> k \<le> (n - 1) div d" by auto
    with k1 have k: "t = k * d" "1 \<le> k" "k \<le> (n - 1) div d" by blast+
    have "k * d \<le> ((n - 1) div d) * d" using k(3) by simp
    also have "\<dots> \<le> n - 1" by simp
    finally have le: "t \<le> n - 1" using k(1) by simp
    have pos: "0 < t" using k(1,2) assms by simp
    with le have "t < n" by simp
    with pos k(1) show "t \<in> set [t\<leftarrow>[0..<n]. t \<noteq> 0 \<and> t mod d = 0]" by simp
  qed
qed

lemma progress_5000:
  "[t\<leftarrow>[0..<5000 - 1]. t \<noteq> 0 \<and> t mod (5000 div 20) = 0] =
     [250, 500, 750, 1000, 1250, 1500, 1750, 2000, 2250, 2500,
      2750, 3000, 3250, 3500, 3750, 4000, 4250, 4500, 4750::nat]"
proof -
  have up: "[1..<Suc ((5000 - 1 - 1) div (5000 div 20))] =
      [1, 2, 3, 4, 5, 6, 7, 8, 9, 10, 11, 12, 13, 14, 15, 16, 17, 18, 19::nat]"
    by (simp add: upt_rec)
  have "[t\<leftarrow>[0..<5000 - 1]. t \<noteq> 0 \<and> t mod (5000 div 20) = 0] =
      map (\<lambda>k. k * (5000 div 20)) [1..<Suc ((5000 - 1 - 1) div (5000 div 20))]"
    by (rule multiples_below) simp
  also have "\<dots> = [250, 500, 750, 1000, 1250, 1500, 1750, 2000, 2250, 2500,
      2750, 3000, 3250, 3500, 3750, 4000, 4250, 4500, 4750::nat]"
    unfolding up by simp
  finally show ?thesis .
qed

lemma md_step_core: "md_step p t st = progress (timesteps p) t (md_core p t st)"
  by (simp add: md_step_def md_core_def Let_def)

lemma fold_spring:
  "fold (spring_body t) js st =
     st\<lparr>spring_acc_H := (\<lambda>tt i. if tt = t \<and> i \<in> set js
                              then fst (spring_acc (position_H st t i) (position_Cl st t i))
                              else spring_acc_H st tt i),
        spring_acc_Cl := (\<lambda>tt i. if tt = t \<and> i \<in> set js
                              then snd (spring_acc (position_H st t i) (position_Cl st t i))
                              else spring_acc_Cl st tt i)\<rparr>"
proof (induction js arbitrary: st)
  case Nil
  show ?case by simp
next
  case (Cons j js)
  show ?case
    unfolding fold_simps Cons.IH
    by (simp add: spring_body_def Let_def set_at_def fun_eq_iff)
qed

lemma fold_coulomb:
  "fold (coulomb_body n t) js st =
     st\<lparr>coulomb_acc_H := (\<lambda>tt i. if tt = t \<and> i \<in> set js
                              then fst (coulomb_acc n (position_H st t) (position_Cl st t) i)
                              else coulomb_acc_H st tt i),
        coulomb_acc_Cl := (\<lambda>tt i. if tt = t \<and> i \<in> set js
                              then snd (coulomb_acc n (position_H st t) (position_Cl st t) i)
                              else coulomb_acc_Cl st tt i)\<rparr>"
proof (induction js arbitrary: st)
  case Nil
  show ?case by simp
next
  case (Cons j js)
  show ?case
    unfolding fold_simps Cons.IH
    by (simp add: coulomb_body_def Let_def set_at_def fun_eq_iff)
qed


lemma md_core_fields:
  "spring_acc_H (md_core p t st) =
     (\<lambda>tt i. if tt = t \<and> i < num_molecules p
              then fst (spring_acc (position_H st t i) (position_Cl st t i))
              else spring_acc_H st tt i)"
  "spring_acc_Cl (md_core p t st) =
     (\<lambda>tt i. if tt = t \<and> i < num_molecules p
              then snd (spring_acc (position_H st t i) (position_Cl st t i))
              else spring_acc_Cl st tt i)"
  "coulomb_acc_H (md_core p t st) =
     (\<lambda>tt i. if tt = t \<and> i < num_molecules p
              then fst (coulomb_acc (num_molecules p) (position_H st t) (position_Cl st t) i)
              else coulomb_acc_H st tt i)"
  "coulomb_acc_Cl (md_core p t st) =
     (\<lambda>tt i. if tt = t \<and> i < num_molecules p
              then snd (coulomb_acc (num_molecules p) (position_H st t) (position_Cl st t) i)
              else coulomb_acc_Cl st tt i)"
  "acceleration_H (md_core p t st) =
     (acceleration_H st)(t := \<lambda>i. vadd (coulomb_acc_H (md_core p t st) t i)
                                       (spring_acc_H (md_core p t st) t i))"
  "acceleration_Cl (md_core p t st) =
     (acceleration_Cl st)(t := \<lambda>i. vadd (coulomb_acc_Cl (md_core p t st) t i)
                                        (spring_acc_Cl (md_core p t st) t i))"
  "velocity_H (md_core p t st) =
     (velocity_H st)(Suc t := \<lambda>i. vadd (velocity_H st t i)
                                       (vscale (acceleration_H (md_core p t st) t i) (dt p)))"
  "velocity_Cl (md_core p t st) =
     (velocity_Cl st)(Suc t := \<lambda>i. vadd (velocity_Cl st t i)
                                        (vscale (acceleration_Cl (md_core p t st) t i) (dt p)))"
  "position_H (md_core p t st) =
     (position_H st)(Suc t := \<lambda>i. vadd (position_H st t i)
                                       (vscale (velocity_H (md_core p t st) (Suc t) i) (dt p)))"
  "position_Cl (md_core p t st) =
     (position_Cl st)(Suc t := \<lambda>i. vadd (position_Cl st t i)
                                        (vscale (velocity_Cl (md_core p t st) (Suc t) i) (dt p)))"
  "printed (md_core p t st) = printed st"
  by (simp_all add: md_core_def integrate_def Let_def fold_spring fold_coulomb fun_eq_iff)

lemma core_step_ok: "step_ok p (md_core p t st) t"
  unfolding step_ok_def by (simp add: md_core_fields)

lemma core_frame:
  assumes "t < t'" "step_ok p st t"
  shows "step_ok p (md_core p t' st) t"
proof -
  have ne: "t \<noteq> t'" "t \<noteq> Suc t'" "Suc t \<noteq> Suc t'" "t' \<noteq> t" using assms(1) by auto
  have rows: "spring_acc_H (md_core p t' st) t = spring_acc_H st t"
    "spring_acc_Cl (md_core p t' st) t = spring_acc_Cl st t"
    "coulomb_acc_H (md_core p t' st) t = coulomb_acc_H st t"
    "coulomb_acc_Cl (md_core p t' st) t = coulomb_acc_Cl st t"
    "acceleration_H (md_core p t' st) t = acceleration_H st t"
    "acceleration_Cl (md_core p t' st) t = acceleration_Cl st t"
    "velocity_H (md_core p t' st) t = velocity_H st t"
    "velocity_Cl (md_core p t' st) t = velocity_Cl st t"
    "velocity_H (md_core p t' st) (Suc t) = velocity_H st (Suc t)"
    "velocity_Cl (md_core p t' st) (Suc t) = velocity_Cl st (Suc t)"
    "position_H (md_core p t' st) t = position_H st t"
    "position_Cl (md_core p t' st) t = position_Cl st t"
    "position_H (md_core p t' st) (Suc t) = position_H st (Suc t)"
    "position_Cl (md_core p t' st) (Suc t) = position_Cl st (Suc t)"
    using ne by (simp_all add: md_core_fields fun_eq_iff)
  show ?thesis
    using assms(2) unfolding step_ok_def Suc_eq_plus1 [symmetric] rows .
qed

lemma step_ok_printed: "step_ok p (st\<lparr>printed := ls\<rparr>) t = step_ok p st t"
  by (simp add: step_ok_def)

lemma progress_cases:
  "progress n t st =
     (if t \<noteq> 0 \<and> n div 20 = 0 then Inl ZeroDivisionError
      else Inr (st\<lparr>printed := printed st @
                  (if t \<noteq> 0 \<and> t mod (n div 20) = 0 then [Progress t n] else [])\<rparr>))"
  by (simp add: progress_def py_mod_def)

lemma for_each_append:
  "for_each (xs @ ys) body st =
     (case for_each xs body st of Inl e \<Rightarrow> Inl e | Inr st' \<Rightarrow> for_each ys body st')"
  by (induction xs arbitrary: st) (simp_all split: sum.splits)

lemma iterations_append:
  "iterations (xs @ ys) body st =
     (case for_each xs body st of Inl e \<Rightarrow> iterations xs body st
      | Inr st' \<Rightarrow> iterations xs body st + iterations ys body st')"
  by (induction xs arbitrary: st) (simp_all split: sum.splits)

lemma md_loop_prefix:
  assumes "timesteps p div 20 \<noteq> 0"
  shows "\<exists>st'. for_each [0..<T] (md_step p) st = Inr st' \<and>
           iterations [0..<T] (md_step p) st = T \<and>
           (\<forall>t<T. step_ok p st' t) \<and>
           position_H st' 0 = position_H st 0 \<and> position_Cl st' 0 = position_Cl st 0 \<and>
           velocity_H st' 0 = velocity_H st 0 \<and> velocity_Cl st' 0 = velocity_Cl st 0 \<and>
           printed st' = printed st @
             map (\<lambda>t. Progress t (timesteps p))
               [t\<leftarrow>[0..<T]. t \<noteq> 0 \<and> t mod (timesteps p div 20) = 0]"
proof (induction T)
  case 0
  show ?case by simp
next
  case (Suc T)
  then obtain st1 where run: "for_each [0..<T] (md_step p) st = Inr st1"
    and it: "iterations [0..<T] (md_step p) st = T"
    and ok: "\<forall>t<T. step_ok p st1 t"
    and rows: "position_H st1 0 = position_H st 0" "position_Cl st1 0 = position_Cl st 0"
      "velocity_H st1 0 = velocity_H st 0" "velocity_Cl st1 0 = velocity_Cl st 0"
    and pr: "printed st1 = printed st @
             map (\<lambda>t. Progress t (timesteps p))
               [t\<leftarrow>[0..<T]. t \<noteq> 0 \<and> t mod (timesteps p div 20) = 0]"
    by blast
  let ?c = "md_core p T st1"
  let ?ls = "printed ?c @ (if T \<noteq> 0 \<and> T mod (timesteps p div 20) = 0
                           then [Progress T (timesteps p)] else [])"
  let ?st2 = "?c\<lparr>printed := ?ls\<rparr>"
  have step: "md_step p T st1 = Inr ?st2"
    using assms by (simp add: md_step_core progress_cases)
  have r1: "for_each [0..<Suc T] (md_step p) st = Inr ?st2"
    using run step by (simp add: for_each_append)
  have r2: "iterations [0..<Suc T] (md_step p) st = Suc T"
    using run step it by (simp add: iterations_append)
  have r3: "\<forall>t<Suc T. step_ok p ?st2 t"
  proof (intro allI impI)
    fix t assume "t < Suc T"
    then consider "t < T" | "t = T" by linarith
    then show "step_ok p ?st2 t"
    proof cases
      case 1
      with ok have "step_ok p st1 t" by blast
      with 1 show ?thesis by (simp only: step_ok_printed core_frame)
    next
      case 2
      then show ?thesis by (simp only: step_ok_printed core_step_ok)
    qed
  qed
  have r4: "position_H ?st2 0 = position_H st 0" "position_Cl ?st2 0 = position_Cl st 0"
    "velocity_H ?st2 0 = velocity_H st 0" "velocity_Cl ?st2 0 = velocity_Cl st 0"
    using rows by (simp_all add: md_core_fields)
  have r5: "printed ?st2 = printed st @
             map (\<lambda>t. Progress t (timesteps p))
               [t\<leftarrow>[0..<Suc T]. t \<noteq> 0 \<and> t mod (timesteps p div 20) = 0]"
    using pr by (simp add: md_core_fields)
  from r1 r2 r3 r4 r5 show ?case by blast
qed

lemma progress_result:
  assumes "progress n t st = Inr st'"
  shows "\<exists>ls. st' = st\<lparr>printed := ls\<rparr>"
proof -
  have a: "st = st\<lparr>printed := printed st\<rparr>" by simp
  from assms have "st' = st\<lparr>printed := printed st @ [Progress t n]\<rparr> \<or> st' = st"
    by (auto simp: progress_def py_mod_def split: if_splits)
  then show ?thesis using a by blast
qed

lemma md_step_result:
  assumes "md_step p t st = Inr st'"
  shows "\<exists>ls. st' = (md_core p t st)\<lparr>printed := ls\<rparr>"
  using assms unfolding md_step_core by (rule progress_result)

lemma md_loop_prefix_any:
  "for_each [0..<T] (md_step p) st = Inr st' \<Longrightarrow>
     (\<forall>t<T. step_ok p st' t) \<and>
     position_H st' 0 = position_H st 0 \<and> position_Cl st' 0 = position_Cl st 0 \<and>
     velocity_H st' 0 = velocity_H st 0 \<and> velocity_Cl st' 0 = velocity_Cl st 0"
proof (induction T arbitrary: st')
  case 0
  then show ?case by simp
next
  case (Suc T)
  from Suc.prems obtain st1 where run: "for_each [0..<T] (md_step p) st = Inr st1"
    and step: "md_step p T st1 = Inr st'"
    by (auto simp: for_each_append split: sum.splits)
  from Suc.IH [OF run] have ok: "\<forall>t<T. step_ok p st1 t"
    and rows: "position_H st1 0 = position_H st 0" "position_Cl st1 0 = position_Cl st 0"
      "velocity_H st1 0 = velocity_H st 0" "velocity_Cl st1 0 = velocity_Cl st 0"
    by simp_all
  from md_step_result [OF step] obtain ls where st': "st' = (md_core p T st1)\<lparr>printed := ls\<rparr>"
    by blast
  have "\<forall>t<Suc T. step_ok p st' t"
  proof (intro allI impI)
    fix t assume "t < Suc T"
    then consider "t < T" | "t = T" by linarith
    then show "step_ok p st' t"
    proof cases
      case 1
      with ok have "step_ok p st1 t" by blast
      with 1 show ?thesis unfolding st' by (simp only: step_ok_printed core_frame)
    next
      case 2
      then show ?thesis unfolding st' by (simp only: step_ok_printed core_step_ok)
    qed
  qed
  moreover have "position_H st' 0 = position_H st 0" "position_Cl st' 0 = position_Cl st 0"
    "velocity_H st' 0 = velocity_H st 0" "velocity_Cl st' 0 = velocity_Cl st 0"
    using rows unfolding st' by (simp_all add: md_core_fields)
  ultimately show ?case by blast
qed

lemma md_loop_total:
  assumes "20 \<le> timesteps p"
  shows "\<exists>st'. md_loop p st = Inr st' \<and>
           iterations [0..<timesteps p - 1] (md_step p) st = timesteps p - 1 \<and>
           printed st' = printed st @
             map (\<lambda>t. Progress t (timesteps p))
               [t\<leftarrow>[0..<timesteps p - 1]. t \<noteq> 0 \<and> t mod (timesteps p div 20) = 0]"
proof -
  have "timesteps p div 20 \<noteq> 0" using assms by (simp add: div_greater_zero_iff)
  from md_loop_prefix [OF this, of "timesteps p - 1" st] show ?thesis
    unfolding md_loop_def by blast
qed

lemma mass_nonzero: "mass_H \<noteq> 0" "mass_Cl \<noteq> 0"
  by (simp_all add: mass_H_def mass_Cl_def u_amu_def)

lemma vnorm_zero_iff: "vnorm a = 0 \<longleftrightarrow> a = (0, 0)"
proof -
  have "(fst a)\<^sup>2 + (snd a)\<^sup>2 = 0 \<longleftrightarrow> fst a = 0 \<and> snd a = 0"
    by (simp add: sum_power2_eq_zero_iff)
  then show ?thesis
    by (cases a) (simp add: vnorm_def)
qed

lemma vnorm_unit:
  assumes "a \<noteq> (0, 0)"
  shows "vnorm (vdiv a (vnorm a)) = 1"
proof -
  have n: "vnorm a \<noteq> 0" using assms by (simp add: vnorm_zero_iff)
  have sq: "(vnorm a)\<^sup>2 = (fst a)\<^sup>2 + (snd a)\<^sup>2"
    by (simp add: vnorm_def)
  have "(fst a / vnorm a)\<^sup>2 + (snd a / vnorm a)\<^sup>2 = ((fst a)\<^sup>2 + (snd a)\<^sup>2) / (vnorm a)\<^sup>2"
    by (simp add: power_divide add_divide_distrib)
  also have "\<dots> = (vnorm a)\<^sup>2 / (vnorm a)\<^sup>2" by (simp only: sq)
  also have "\<dots> = 1" using n by simp
  finally show ?thesis by (simp add: vnorm_def vdiv_def)
qed


lemma vsub_eq_zero_iff: "vsub a b = (0, 0) \<longleftrightarrow> a = b"
  by (cases a, cases b) (simp add: vsub_def)

lemma rounding_exact:
  "vadd_r id = vadd" "vsub_r id = vsub" "vscale_r id = vscale" "vdiv_r id = vdiv"
  "vnorm_r id = vnorm"
  by (simp_all add: fun_eq_iff vadd_r_def vadd_def vsub_r_def vsub_def vscale_r_def vscale_def
      vdiv_r_def vdiv_def vnorm_r_def vnorm_def power2_eq_square)

lemma constants_exact:
  "u_amu_r id = u_amu" "mass_H_r id = mass_H" "mass_Cl_r id = mass_Cl"
  "bond_length_r id = bond_length"
  by (simp_all add: u_amu_r_def u_amu_def mass_H_r_def mass_H_def mass_Cl_r_def mass_Cl_def
      bond_length_r_def bond_length_def)

lemma spring_acc_exact:
  "spring_acc pos_H pos_Cl =
     (let spring_difference = vsub pos_Cl pos_H;
          spring_distance = vnorm spring_difference;
          spring_unitvector = vdiv spring_difference spring_distance;
          spring_force = k_spring * (spring_distance - bond_length)
      in (vdiv (vscale spring_unitvector spring_force) mass_H,
          vdiv (vscale (vneg spring_unitvector) spring_force) mass_Cl))"
  by (simp add: spring_acc_def spring_acc_r_def rounding_exact constants_exact)

lemma vnorm_distance: "vnorm (vsub a c) = distance a c"
  by (simp add: vnorm_def vsub_def distance_def)

lemma distance_zero_iff: "distance a c = 0 \<longleftrightarrow> a = c"
  unfolding vnorm_distance [symmetric] vnorm_zero_iff vsub_eq_zero_iff by (rule refl)

lemma unit_vector:
  assumes "a \<noteq> c"
  shows "((fst a - fst c) / distance a c)\<^sup>2 + ((snd a - snd c) / distance a c)\<^sup>2 = 1"
proof -
  have "vsub a c \<noteq> (0, 0)" using assms by (simp add: vsub_eq_zero_iff)
  from vnorm_unit [OF this] have "(vnorm (vdiv (vsub a c) (vnorm (vsub a c))))\<^sup>2 = 1" by simp
  then show ?thesis
    unfolding vnorm_distance by (simp add: vnorm_def vdiv_def vsub_def)
qed

lemma spring_acc_formula:
  "spring_acc rH rCl =
     (((fst rCl - fst rH) / distance rCl rH * (k_spring * (distance rCl rH - bond_length)) / mass_H,
       (snd rCl - snd rH) / distance rCl rH * (k_spring * (distance rCl rH - bond_length)) / mass_H),
      (- ((fst rCl - fst rH) / distance rCl rH) * (k_spring * (distance rCl rH - bond_length)) / mass_Cl,
       - ((snd rCl - snd rH) / distance rCl rH) * (k_spring * (distance rCl rH - bond_length)) / mass_Cl))"
  unfolding spring_acc_exact Let_def vnorm_distance
  by (simp add: vdiv_def vscale_def vneg_def vsub_def)

lemma spring_third_law:
  "mass_H * fst (fst (spring_acc rH rCl)) + mass_Cl * fst (snd (spring_acc rH rCl)) = 0"
  "mass_H * snd (fst (spring_acc rH rCl)) + mass_Cl * snd (snd (spring_acc rH rCl)) = 0"
  using mass_nonzero unfolding spring_acc_formula by simp_all

lemma spring_force_opposite:
  assumes "\<And>x. rnd (- x) = - rnd x"
  shows "vscale_r rnd (vneg u) F = vneg (vscale_r rnd u F)"
  by (simp add: vscale_r_def vneg_def assms)

lemma vsum_components:
  "fst (vsum vs) = sum_list (map fst vs)" "snd (vsum vs) = sum_list (map snd vs)"
  by (induction vs) (simp_all add: vsum_def vadd_def)

lemma mask_sum:
  "sum_list (map f (coulomb_mask n i)) = (\<Sum>j\<in>{0..<n} - {i}. f j)"
proof -
  have d: "distinct (coulomb_mask n i)" by (simp add: coulomb_mask_def)
  have s: "set (coulomb_mask n i) = {0..<n} - {i}" by (auto simp: coulomb_mask_def)
  show ?thesis
    using sum_list_distinct_conv_sum_set [OF d, of f] by (simp add: s)
qed

lemma coulomb_acc_components:
  "fst (fst (coulomb_acc n pH pCl i)) =
     ((\<Sum>j\<in>{0..<n} - {i}. fst (coulomb_force charge_H charge_H (pH i) (pH j))) +
      (\<Sum>j\<in>{0..<n} - {i}. fst (coulomb_force charge_H charge_Cl (pH i) (pCl j)))) / mass_H"
  "snd (fst (coulomb_acc n pH pCl i)) =
     ((\<Sum>j\<in>{0..<n} - {i}. snd (coulomb_force charge_H charge_H (pH i) (pH j))) +
      (\<Sum>j\<in>{0..<n} - {i}. snd (coulomb_force charge_H charge_Cl (pH i) (pCl j)))) / mass_H"
  "fst (snd (coulomb_acc n pH pCl i)) =
     ((\<Sum>j\<in>{0..<n} - {i}. fst (coulomb_force charge_Cl charge_H (pCl i) (pH j))) +
      (\<Sum>j\<in>{0..<n} - {i}. fst (coulomb_force charge_Cl charge_Cl (pCl i) (pCl j)))) / mass_Cl"
  "snd (snd (coulomb_acc n pH pCl i)) =
     ((\<Sum>j\<in>{0..<n} - {i}. snd (coulomb_force charge_Cl charge_H (pCl i) (pH j))) +
      (\<Sum>j\<in>{0..<n} - {i}. snd (coulomb_force charge_Cl charge_Cl (pCl i) (pCl j)))) / mass_Cl"
  by (simp_all add: coulomb_acc_def Let_def vdiv_def vadd_def vsum_components comp_def
      mask_sum)

lemma coulomb_force_term: "coulomb_force qa qb ra rb = coulomb_term qa qb ra rb"
  unfolding coulomb_force_def Let_def vnorm_distance
  by (simp add: coulomb_term_def smul_def vdiv_def vsub_def)

lemma coulomb_acc_terms:
  "fst (fst (coulomb_acc n pH pCl i)) =
     ((\<Sum>j\<in>{0..<n} - {i}. fst (coulomb_term charge_H charge_H (pH i) (pH j))) +
      (\<Sum>j\<in>{0..<n} - {i}. fst (coulomb_term charge_H charge_Cl (pH i) (pCl j)))) / mass_H"
  "snd (fst (coulomb_acc n pH pCl i)) =
     ((\<Sum>j\<in>{0..<n} - {i}. snd (coulomb_term charge_H charge_H (pH i) (pH j))) +
      (\<Sum>j\<in>{0..<n} - {i}. snd (coulomb_term charge_H charge_Cl (pH i) (pCl j)))) / mass_H"
  "fst (snd (coulomb_acc n pH pCl i)) =
     ((\<Sum>j\<in>{0..<n} - {i}. fst (coulomb_term charge_Cl charge_H (pCl i) (pH j))) +
      (\<Sum>j\<in>{0..<n} - {i}. fst (coulomb_term charge_Cl charge_Cl (pCl i) (pCl j)))) / mass_Cl"
  "snd (snd (coulomb_acc n pH pCl i)) =
     ((\<Sum>j\<in>{0..<n} - {i}. snd (coulomb_term charge_Cl charge_H (pCl i) (pH j))) +
      (\<Sum>j\<in>{0..<n} - {i}. snd (coulomb_term charge_Cl charge_Cl (pCl i) (pCl j)))) / mass_Cl"
  by (simp_all only: coulomb_acc_components coulomb_force_term)

lemma grow_step_ns: "grow_step Lx Ly nrep eta u l = Inr l1 \<Longrightarrow> ns l1 = ns l + 1"
  by (auto simp: grow_step_def mark_point_eq split: sum.splits)

lemma lightning_loop_result:
  "lightning_loop Lx Ly nrep eta us l = Some (Inr l') \<Longrightarrow>
     ymin l' \<le> 0 \<and> ns l \<le> ns l' \<and> ns l' \<le> ns l + length us \<and>
     (0 < ymin l \<longrightarrow> ns l < ns l')"
proof (induction us arbitrary: l)
  case Nil
  then show ?case by (simp split: if_splits)
next
  case (Cons u us)
  show ?case
  proof (cases "0 < ymin l")
    case False
    with Cons.prems show ?thesis by simp
  next
    case True
    with Cons.prems obtain l1 where g: "grow_step Lx Ly nrep eta u l = Inr l1"
      and r: "lightning_loop Lx Ly nrep eta us l1 = Some (Inr l')"
      by (auto split: sum.splits)
    from Cons.IH [OF r] grow_step_ns [OF g] show ?thesis by auto
  qed
qed







lemma md_run_lines:
  assumes "20 \<le> timesteps p"
  shows "\<exists>st'. md_run p st = Inr st' \<and>
     printed st' = printed st @
       map (\<lambda>t. Progress t (timesteps p))
         [t\<leftarrow>[0..<timesteps p - 1]. t \<noteq> 0 \<and> t mod (timesteps p div 20) = 0] @
       [Summary (num_molecules p) (timesteps p)]"
proof -
  from md_loop_total [OF assms, of st] obtain st1 where
    "md_loop p st = Inr st1"
    "printed st1 = printed st @
             map (\<lambda>t. Progress t (timesteps p))
               [t\<leftarrow>[0..<timesteps p - 1]. t \<noteq> 0 \<and> t mod (timesteps p div 20) = 0]"
    by blast
  then show ?thesis by (simp add: md_run_def)
qed

lemma md_loop_result:
  assumes "md_loop p st = Inr st'"
  shows "\<forall>t<timesteps p - 1. step_ok p st' t"
    "position_H st' 0 = position_H st 0" "position_Cl st' 0 = position_Cl st 0"
    "velocity_H st' 0 = velocity_H st 0" "velocity_Cl st' 0 = velocity_Cl st 0"
  using assms md_loop_prefix_any [of "timesteps p - 1" p st st']
  unfolding md_loop_def by blast+

lemma distance_on_axis: "distance (a, 0) (c, 0) = \<bar>a - c\<bar>"
  by (simp add: distance_def)

lemma line_apart: "apart 2 line_H line_Cl"
  by (auto simp: apart_def line_H_def line_Cl_def)

lemma line_others: "{0..<2::nat} - {0} = {1}"
  by auto

lemma line_init:
  "position_H (md_init line_H line_Cl) 0 = line_H"
  "position_Cl (md_init line_H line_Cl) 0 = line_Cl"
  "velocity_H (md_init line_H line_Cl) 0 i = (0, 0)"
  "velocity_Cl (md_init line_H line_Cl) 0 i = (0, 0)"
  by (simp_all add: md_init_def)

lemma small_params_simps:
  "20 \<le> timesteps small_params" "0 < timesteps small_params - 1"
  "0 < num_molecules small_params" "num_molecules small_params = 2" "dt small_params = 1 / 2"
  by (simp_all add: small_params_def)

section \<open>The claims\<close>

text \<open>
  Claim C5. For every boundary array \<open>b\<close> and every \<open>nrep\<close>, \<open>solvepoisson\<close> returns an
  array of the shape of \<open>b\<close> that equals \<open>b\<close> at every grid point where \<open>b\<close> is not nan:
  only the nan points of \<open>b\<close> are modified. The one call that returns nothing is the
  1x1 grid whose point is nan with \<open>nrep > 0\<close>, which raises \<open>ZeroDivisionError\<close>
  and has no specified point.
\<close>
theorem solvepoisson_keeps_boundary:
  "(degenerate b \<and> 0 < nrep \<longrightarrow> solvepoisson b nrep = Inl ZeroDivisionError) \<and>
   (\<not> (degenerate b \<and> 0 < nrep) \<longrightarrow>
      (\<exists>r. solvepoisson b nrep = Inr r \<and> size0 r = size0 b \<and> size1 r = size1 b \<and>
           (\<forall>ix iy v. ix < size0 b \<longrightarrow> iy < size1 b \<longrightarrow> cell b ix iy = Some v \<longrightarrow>
                       cell r ix iy = v)))"
  by (simp add: solvepoisson_cases jacobi_frame)

theorem solvepoisson_keeps_boundary_witness:
  "\<not> (degenerate b33 \<and> 0 < (2::nat)) \<and> (2::nat) < size0 b33 \<and> (0::nat) < size1 b33 \<and>
   cell b33 2 0 = Some 1 \<and> cell_of (solvepoisson b33 2) 2 0 = Inr 1"
proof -
  have "\<not> (degenerate b33 \<and> 0 < (2::nat))" "(2::nat) < size0 b33" "(0::nat) < size1 b33"
    "cell b33 2 0 = Some 1"
    by (simp_all add: b33_def degenerate_def)
  with solvepoisson_keeps_boundary [of b33 2] show ?thesis
    by (auto simp: cell_of_def)
qed

text \<open>
  Claim C10. On a grid with at least two rows or at least two columns every point has
  an in-grid neighbour, so \<open>ncount \<ge> 1\<close> where \<open>pot/ncount\<close> is computed and the
  solver raises nothing; the update of a point divides by zero exactly on the 1x1 grid
  whose single point is nan, and \<open>solvepoisson\<close> raises exactly there (with at least
  one sweep to run).
\<close>
theorem ncount_positive:
  "(ix < Lx \<longrightarrow> iy < Ly \<longrightarrow> 2 \<le> Lx \<or> 2 \<le> Ly \<longrightarrow>
      1 \<le> fst (neighbour_sum Lx Ly zf ix iy)) \<and>
   (ix < Lx \<longrightarrow> iy < Ly \<longrightarrow>
      (update_point b Lx Ly ix iy st = Inl ZeroDivisionError \<longleftrightarrow>
         Lx = 1 \<and> Ly = 1 \<and> cell b ix iy = None)) \<and>
   (2 \<le> size0 b \<or> 2 \<le> size1 b \<longrightarrow> \<not> isl (solvepoisson b nrep)) \<and>
   (isl (solvepoisson b nrep) \<longleftrightarrow>
      size0 b = 1 \<and> size1 b = 1 \<and> cell b 0 0 = None \<and> 0 < nrep)"
proof (intro conjI impI)
  assume "ix < Lx" "iy < Ly" "2 \<le> Lx \<or> 2 \<le> Ly"
  then show "1 \<le> fst (neighbour_sum Lx Ly zf ix iy)"
    using neighbours_length_ge1 [of ix Lx iy Ly] by (simp add: neighbour_sum_eq)
next
  assume "ix < Lx" "iy < Ly"
  then show "update_point b Lx Ly ix iy st = Inl ZeroDivisionError \<longleftrightarrow>
         Lx = 1 \<and> Ly = 1 \<and> cell b ix iy = None"
    by (simp add: update_point_error_iff)
next
  assume "2 \<le> size0 b \<or> 2 \<le> size1 b"
  then show "\<not> isl (solvepoisson b nrep)"
    by (auto simp: solvepoisson_cases degenerate_def)
next
  show "isl (solvepoisson b nrep) \<longleftrightarrow>
      size0 b = 1 \<and> size1 b = 1 \<and> cell b 0 0 = None \<and> 0 < nrep"
    by (auto simp: solvepoisson_cases degenerate_def)
qed

theorem ncount_positive_witness:
  "(0::nat) < 3 \<and> (1::nat) < 3 \<and> ((2::nat) \<le> 3 \<or> (2::nat) \<le> 3) \<and>
   1 \<le> fst (neighbour_sum 3 3 (nan_to_zero b33) 0 1) \<and>
   update_point b33 3 3 0 1 (sp_init b33) \<noteq> Inl ZeroDivisionError \<and>
   (2 \<le> size0 b33 \<or> 2 \<le> size1 b33) \<and> \<not> isl (solvepoisson b33 2) \<and>
   isl (solvepoisson b11 1)"
proof -
  have h: "(0::nat) < 3" "(1::nat) < 3" "(2::nat) \<le> 3 \<or> (2::nat) \<le> 3"
    "2 \<le> size0 b33 \<or> 2 \<le> size1 b33"
    "size0 b11 = 1 \<and> size1 b11 = 1 \<and> cell b11 0 0 = None \<and> 0 < (1::nat)"
    by (simp_all add: b33_def b11_def)
  from ncount_positive [of 0 3 1 3 "nan_to_zero b33" b33 "sp_init b33" 2]
       ncount_positive [of 0 1 0 1 "nan_to_zero b11" b11 "sp_init b11" 1] h
  show ?thesis by simp
qed

text \<open>
  Claim C2 as stated fails on two grids. On the 1x1 grid whose point is nan, one sweep
  raises \<open>ZeroDivisionError\<close> and no field is returned. On the 1x2 grid \<open>[nan, 6]\<close>
  the nan point has a single in-grid neighbour (not 2, 3 or 4) and takes its value.
\<close>
theorem solvepoisson_jacobi_counterexample:
  "solvepoisson b11 1 = Inl ZeroDivisionError \<and>
   fst (neighbour_sum 1 2 (nan_to_zero b12) 0 0) = 1 \<and>
   cell_of (solvepoisson b12 1) 0 0 = Inr 6"
proof -
  have "jacobi b12 (Suc 0) 0 0 = 6"
    by (simp add: jacobi_sweep_def neighbour_mean_def neighbours_def nan_to_zero_def b12_def)
  then show ?thesis
    by (simp add: solvepoisson_cases degenerate_def b11_def b12_def cell_of_def
        neighbour_sum_eq neighbours_def)
qed

text \<open>
  Claim C2, amended. Unless the grid is 1x1 with a nan point and \<open>nrep > 0\<close> (then
  \<open>ZeroDivisionError\<close> is raised), \<open>solvepoisson b nrep\<close> returns the field after exactly
  \<open>nrep\<close> Jacobi sweeps: sweep 0 is \<open>b\<close> with nan replaced by 0; in each sweep the new
  value of a grid point that is nan in \<open>b\<close> is the arithmetic mean of its in-grid
  neighbours in the previous sweep's field, and every other point keeps its value. A
  point has between 1 and 4 in-grid neighbours, and 2, 3 or 4 of them when the grid has
  at least two rows and two columns.
\<close>
theorem solvepoisson_jacobi:
  "(\<not> (degenerate b \<and> 0 < nrep) \<longrightarrow>
      solvepoisson b nrep = Inr \<lparr>size0 = size0 b, size1 = size1 b, cell = jacobi b nrep\<rparr>) \<and>
   (degenerate b \<and> 0 < nrep \<longrightarrow> solvepoisson b nrep = Inl ZeroDivisionError) \<and>
   jacobi b 0 ix iy = (case cell b ix iy of None \<Rightarrow> 0 | Some v \<Rightarrow> v) \<and>
   (ix < size0 b \<longrightarrow> iy < size1 b \<longrightarrow>
      jacobi b (Suc k) ix iy =
        (if cell b ix iy = None
         then (\<Sum>p\<leftarrow>neighbours (size0 b) (size1 b) ix iy. jacobi b k (fst p) (snd p)) /
              real (length (neighbours (size0 b) (size1 b) ix iy))
         else jacobi b k ix iy)) \<and>
   (ix < size0 b \<longrightarrow> iy < size1 b \<longrightarrow> \<not> (size0 b = 1 \<and> size1 b = 1) \<longrightarrow>
      length (neighbours (size0 b) (size1 b) ix iy) \<in> {1, 2, 3, 4}) \<and>
   (ix < size0 b \<longrightarrow> iy < size1 b \<longrightarrow> 2 \<le> size0 b \<longrightarrow> 2 \<le> size1 b \<longrightarrow>
      length (neighbours (size0 b) (size1 b) ix iy) \<in> {2, 3, 4})"
proof (intro conjI impI)
  assume "ix < size0 b" "iy < size1 b" "\<not> (size0 b = 1 \<and> size1 b = 1)"
  then have "neighbours (size0 b) (size1 b) ix iy \<noteq> []"
    by (simp add: neighbours_empty_iff)
  then have "1 \<le> length (neighbours (size0 b) (size1 b) ix iy)"
    by (cases "neighbours (size0 b) (size1 b) ix iy") simp_all
  with neighbours_length_le [of "size0 b" "size1 b" ix iy]
  show "length (neighbours (size0 b) (size1 b) ix iy) \<in> {1, 2, 3, 4}"
    by auto
next
  assume "ix < size0 b" "iy < size1 b" "2 \<le> size0 b" "2 \<le> size1 b"
  with neighbours_length_le [of "size0 b" "size1 b" ix iy]
    neighbours_length_ge2 [of ix "size0 b" iy "size1 b"]
  show "length (neighbours (size0 b) (size1 b) ix iy) \<in> {2, 3, 4}"
    by auto
qed (simp_all add: solvepoisson_cases nan_to_zero_def jacobi_sweep_def neighbour_mean_def)

theorem solvepoisson_jacobi_witness:
  "\<not> (degenerate b33 \<and> 0 < (1::nat)) \<and> (0::nat) < size0 b33 \<and> (1::nat) < size1 b33 \<and>
   2 \<le> size0 b33 \<and> 2 \<le> size1 b33 \<and>
   cell_of (solvepoisson b33 1) 0 1 = Inr (1 / 3) \<and>
   length (neighbours (size0 b33) (size1 b33) 0 1) \<in> {2, 3, 4}"
proof -
  have h: "\<not> (degenerate b33 \<and> 0 < (1::nat))" "(0::nat) < size0 b33" "(1::nat) < size1 b33"
    "2 \<le> size0 b33" "2 \<le> size1 b33"
    by (simp_all add: b33_def degenerate_def)
  have nb: "neighbours (size0 b33) (size1 b33) 0 1 = [(1, 1), (0, 0), (0, 2)]"
    by (simp add: neighbours_def b33_def)
  have c: "cell b33 0 1 = None" "cell b33 1 1 = None" "cell b33 0 0 = Some 1" "cell b33 0 2 = Some 0"
    by (simp_all add: b33_def)
  from solvepoisson_jacobi [of b33 1 0 1 0] h
  have "solvepoisson b33 1 = Inr \<lparr>size0 = size0 b33, size1 = size1 b33, cell = jacobi b33 1\<rparr>"
    and "jacobi b33 0 1 1 = 0" "jacobi b33 0 0 0 = 1" "jacobi b33 0 0 2 = 0"
    and "jacobi b33 (Suc 0) 0 1 = (jacobi b33 0 1 1 + jacobi b33 0 0 0 + jacobi b33 0 0 2) / 3"
    and "length (neighbours (size0 b33) (size1 b33) 0 1) \<in> {2, 3, 4}"
    using nb c by (simp_all add: nan_to_zero_def)
  with h show ?thesis
    by (simp add: cell_of_def)
qed




text \<open>
  Claim C7 as stated fails for the lightning loop. With the notebook's parameters
  (50 by 50 points, 3000 Jacobi steps, \<open>eta = 1\<close>) and uniform samples that are all 0
  in the first iteration the loop runs once; with samples that are all 1/2 in the first
  iteration and all 0 in the second it runs twice.
\<close>
theorem fixed_length_loops_counterexample:
  "loop_count (lightning_loop 50 50 3000 1 [zero_sample, zero_sample] (lightning_init 50 50)) = Some 1 \<and>
   loop_count (lightning_loop 50 50 3000 1 [half_sample, zero_sample] (lightning_init 50 50)) = Some 2"
proof -
  have "lightning_loop 50 50 3000 1 [zero_sample, zero_sample] (lightning_init 50 50) =
      Some (Inr (mark_point 50 50 0 0 (lightning_init 50 50)))"
    by (rule loop_zero_sample_first) simp_all
  moreover obtain ix where
    "lightning_loop 50 50 3000 1 [half_sample, zero_sample] (lightning_init 50 50) =
      Some (Inr (mark_point 50 50 0 0 (mark_point 50 50 ix (50 - 2) (lightning_init 50 50))))"
    using loop_half_then_zero [of 50 50 3000 "[]"] by auto
  ultimately show ?thesis
    by (simp add: loop_count_def mark_point_eq lightning_init_def)
qed

text \<open>
  Claim C1. The integration loop does not raise when \<open>timesteps \<ge> 20\<close>. It leaves the
  initial rows (row 0) of the positions and of the velocities as they were, and in the
  arrays it returns, for every timestep \<open>t\<close> from 0 to \<open>timesteps - 2\<close>, every molecule
  and both species: the acceleration at \<open>t\<close> is the sum of the Coulomb and the spring
  acceleration at \<open>t\<close>, the velocity at \<open>t + 1\<close> is the velocity at \<open>t\<close> plus the
  acceleration at \<open>t\<close> times \<open>dt\<close>, and the position at \<open>t + 1\<close> is the position at \<open>t\<close>
  plus the velocity at \<open>t + 1\<close> (the updated one) times \<open>dt\<close>; when no two atoms
  coincide at \<open>t\<close>, the Coulomb and the spring acceleration at \<open>t\<close> are those of the two
  inner loops on the positions at \<open>t\<close>. Together with row 0 this determines every row of
  every array.
\<close>
theorem euler_cromer:
  "(20 \<le> timesteps p \<longrightarrow> \<not> isl (md_loop p st)) \<and>
   (\<forall>st'. md_loop p st = Inr st' \<longrightarrow>
      position_H st' 0 = position_H st 0 \<and> position_Cl st' 0 = position_Cl st 0 \<and>
      velocity_H st' 0 = velocity_H st 0 \<and> velocity_Cl st' 0 = velocity_Cl st 0 \<and>
      (\<forall>t<timesteps p - 1. \<forall>i<num_molecules p.
         acceleration_H st' t i =
           (fst (coulomb_acc_H st' t i) + fst (spring_acc_H st' t i),
            snd (coulomb_acc_H st' t i) + snd (spring_acc_H st' t i)) \<and>
         acceleration_Cl st' t i =
           (fst (coulomb_acc_Cl st' t i) + fst (spring_acc_Cl st' t i),
            snd (coulomb_acc_Cl st' t i) + snd (spring_acc_Cl st' t i)) \<and>
         velocity_H st' (t + 1) i =
           (fst (velocity_H st' t i) + fst (acceleration_H st' t i) * dt p,
            snd (velocity_H st' t i) + snd (acceleration_H st' t i) * dt p) \<and>
         velocity_Cl st' (t + 1) i =
           (fst (velocity_Cl st' t i) + fst (acceleration_Cl st' t i) * dt p,
            snd (velocity_Cl st' t i) + snd (acceleration_Cl st' t i) * dt p) \<and>
         position_H st' (t + 1) i =
           (fst (position_H st' t i) + fst (velocity_H st' (t + 1) i) * dt p,
            snd (position_H st' t i) + snd (velocity_H st' (t + 1) i) * dt p) \<and>
         position_Cl st' (t + 1) i =
           (fst (position_Cl st' t i) + fst (velocity_Cl st' (t + 1) i) * dt p,
            snd (position_Cl st' t i) + snd (velocity_Cl st' (t + 1) i) * dt p) \<and>
         (apart (num_molecules p) (position_H st' t) (position_Cl st' t) \<longrightarrow>
            coulomb_acc_H st' t i =
              fst (coulomb_acc (num_molecules p) (position_H st' t) (position_Cl st' t) i) \<and>
            coulomb_acc_Cl st' t i =
              snd (coulomb_acc (num_molecules p) (position_H st' t) (position_Cl st' t) i) \<and>
            spring_acc_H st' t i = fst (spring_acc (position_H st' t i) (position_Cl st' t i)) \<and>
            spring_acc_Cl st' t i = snd (spring_acc (position_H st' t i) (position_Cl st' t i)))))"
proof (intro conjI impI allI)
  assume "20 \<le> timesteps p"
  from md_loop_total [OF this, of st] show "\<not> isl (md_loop p st)" by auto
next
  fix st' assume "md_loop p st = Inr st'"
  from md_loop_result(2-5) [OF this]
  show "position_H st' 0 = position_H st 0" "position_Cl st' 0 = position_Cl st 0"
    "velocity_H st' 0 = velocity_H st 0" "velocity_Cl st' 0 = velocity_Cl st 0"
    by blast+
next
  fix st' t i
  assume "md_loop p st = Inr st'" "t < timesteps p - 1" "i < num_molecules p"
  with md_loop_result(1) [of p st st'] have "step_ok p st' t" by blast
  with \<open>i < num_molecules p\<close>
  have s: "spring_acc_H st' t i = fst (spring_acc (position_H st' t i) (position_Cl st' t i))"
    "spring_acc_Cl st' t i = snd (spring_acc (position_H st' t i) (position_Cl st' t i))"
    "coulomb_acc_H st' t i =
       fst (coulomb_acc (num_molecules p) (position_H st' t) (position_Cl st' t) i)"
    "coulomb_acc_Cl st' t i =
       snd (coulomb_acc (num_molecules p) (position_H st' t) (position_Cl st' t) i)"
    "acceleration_H st' t i = vadd (coulomb_acc_H st' t i) (spring_acc_H st' t i)"
    "acceleration_Cl st' t i = vadd (coulomb_acc_Cl st' t i) (spring_acc_Cl st' t i)"
    "velocity_H st' (t + 1) i = vadd (velocity_H st' t i) (vscale (acceleration_H st' t i) (dt p))"
    "velocity_Cl st' (t + 1) i = vadd (velocity_Cl st' t i) (vscale (acceleration_Cl st' t i) (dt p))"
    "position_H st' (t + 1) i = vadd (position_H st' t i) (vscale (velocity_H st' (t + 1) i) (dt p))"
    "position_Cl st' (t + 1) i = vadd (position_Cl st' t i) (vscale (velocity_Cl st' (t + 1) i) (dt p))"
    unfolding step_ok_def by blast+
  show "acceleration_H st' t i =
           (fst (coulomb_acc_H st' t i) + fst (spring_acc_H st' t i),
            snd (coulomb_acc_H st' t i) + snd (spring_acc_H st' t i))"
    unfolding s(5) vadd_def by (rule refl)
  show "acceleration_Cl st' t i =
           (fst (coulomb_acc_Cl st' t i) + fst (spring_acc_Cl st' t i),
            snd (coulomb_acc_Cl st' t i) + snd (spring_acc_Cl st' t i))"
    unfolding s(6) vadd_def by (rule refl)
  show "velocity_H st' (t + 1) i =
           (fst (velocity_H st' t i) + fst (acceleration_H st' t i) * dt p,
            snd (velocity_H st' t i) + snd (acceleration_H st' t i) * dt p)"
    by (subst s(7)) (simp add: vadd_def vscale_def)
  show "velocity_Cl st' (t + 1) i =
           (fst (velocity_Cl st' t i) + fst (acceleration_Cl st' t i) * dt p,
            snd (velocity_Cl st' t i) + snd (acceleration_Cl st' t i) * dt p)"
    by (subst s(8)) (simp add: vadd_def vscale_def)
  show "position_H st' (t + 1) i =
           (fst (position_H st' t i) + fst (velocity_H st' (t + 1) i) * dt p,
            snd (position_H st' t i) + snd (velocity_H st' (t + 1) i) * dt p)"
    by (subst s(9)) (simp add: vadd_def vscale_def)
  show "position_Cl st' (t + 1) i =
           (fst (position_Cl st' t i) + fst (velocity_Cl st' (t + 1) i) * dt p,
            snd (position_Cl st' t i) + snd (velocity_Cl st' (t + 1) i) * dt p)"
    by (subst s(10)) (simp add: vadd_def vscale_def)
  show "coulomb_acc_H st' t i =
       fst (coulomb_acc (num_molecules p) (position_H st' t) (position_Cl st' t) i)"
    "coulomb_acc_Cl st' t i =
       snd (coulomb_acc (num_molecules p) (position_H st' t) (position_Cl st' t) i)"
    "spring_acc_H st' t i = fst (spring_acc (position_H st' t i) (position_Cl st' t i))"
    "spring_acc_Cl st' t i = snd (spring_acc (position_H st' t i) (position_Cl st' t i))"
    using s(1-4) by blast+
qed

theorem euler_cromer_witness:
  "\<not> isl line_run \<and>
   position_H (projr line_run) 0 = line_H \<and> position_Cl (projr line_run) 0 = line_Cl \<and>
   acceleration_H (projr line_run) 0 0 =
     (fst (fst (coulomb_acc 2 line_H line_Cl 0)) + fst (fst (spring_acc (0, 0) (1, 0))),
      snd (fst (coulomb_acc 2 line_H line_Cl 0)) + snd (fst (spring_acc (0, 0) (1, 0)))) \<and>
   acceleration_Cl (projr line_run) 0 0 =
     (fst (snd (coulomb_acc 2 line_H line_Cl 0)) + fst (snd (spring_acc (0, 0) (1, 0))),
      snd (snd (coulomb_acc 2 line_H line_Cl 0)) + snd (snd (spring_acc (0, 0) (1, 0)))) \<and>
   velocity_H (projr line_run) 1 0 =
     (fst (acceleration_H (projr line_run) 0 0) * (1 / 2),
      snd (acceleration_H (projr line_run) 0 0) * (1 / 2)) \<and>
   position_H (projr line_run) 1 0 =
     (fst (acceleration_H (projr line_run) 0 0) * (1 / 2) * (1 / 2),
      snd (acceleration_H (projr line_run) 0 0) * (1 / 2) * (1 / 2)) \<and>
   position_Cl (projr line_run) 1 0 =
     (1 + fst (acceleration_Cl (projr line_run) 0 0) * (1 / 2) * (1 / 2),
      snd (acceleration_Cl (projr line_run) 0 0) * (1 / 2) * (1 / 2))"
proof -
  note th = euler_cromer [of small_params "md_init line_H line_Cl"]
  from th small_params_simps(1) obtain st' where
    st': "md_loop small_params (md_init line_H line_Cl) = Inr st'"
    by (cases "md_loop small_params (md_init line_H line_Cl)") auto
  then have run: "line_run = Inr st'" by (simp add: line_run_def)
  note r = th [THEN conjunct2, rule_format, OF st']
  have rows: "position_H st' 0 = line_H" "position_Cl st' 0 = line_Cl"
    "velocity_H st' 0 0 = (0, 0)" "velocity_Cl st' 0 0 = (0, 0)"
    using r [THEN conjunct1] r [THEN conjunct2, THEN conjunct1]
      r [THEN conjunct2, THEN conjunct2, THEN conjunct1]
      r [THEN conjunct2, THEN conjunct2, THEN conjunct2, THEN conjunct1]
    by (simp_all add: line_init)
  note u = r [THEN conjunct2, THEN conjunct2, THEN conjunct2, THEN conjunct2, rule_format,
      of 0 0, OF small_params_simps(2) small_params_simps(3)]
  have ap: "apart (num_molecules small_params) (position_H st' 0) (position_Cl st' 0)"
    unfolding rows small_params_simps(4) by (rule line_apart)
  note ties = u [THEN conjunct2, THEN conjunct2, THEN conjunct2, THEN conjunct2, THEN conjunct2,
      THEN conjunct2, rule_format, OF ap]
  have p0: "line_H 0 = (0, 0)" "line_Cl 0 = (1, 0)" by (simp_all add: line_H_def line_Cl_def)
  have aH: "acceleration_H st' 0 0 =
     (fst (fst (coulomb_acc 2 line_H line_Cl 0)) + fst (fst (spring_acc (0, 0) (1, 0))),
      snd (fst (coulomb_acc 2 line_H line_Cl 0)) + snd (fst (spring_acc (0, 0) (1, 0))))"
    using u [THEN conjunct1] ties rows(1,2) p0 small_params_simps(4) by simp
  have aCl: "acceleration_Cl st' 0 0 =
     (fst (snd (coulomb_acc 2 line_H line_Cl 0)) + fst (snd (spring_acc (0, 0) (1, 0))),
      snd (snd (coulomb_acc 2 line_H line_Cl 0)) + snd (snd (spring_acc (0, 0) (1, 0))))"
    using u [THEN conjunct2, THEN conjunct1] ties rows(1,2) p0 small_params_simps(4) by simp
  have vH: "velocity_H st' 1 0 =
     (fst (acceleration_H st' 0 0) * (1 / 2), snd (acceleration_H st' 0 0) * (1 / 2))"
    using u [THEN conjunct2, THEN conjunct2, THEN conjunct1] rows(3) small_params_simps(5)
    by simp
  have vCl: "velocity_Cl st' 1 0 =
     (fst (acceleration_Cl st' 0 0) * (1 / 2), snd (acceleration_Cl st' 0 0) * (1 / 2))"
    using u [THEN conjunct2, THEN conjunct2, THEN conjunct2, THEN conjunct1] rows(4)
      small_params_simps(5)
    by simp
  have pH: "position_H st' 1 0 =
     (fst (acceleration_H st' 0 0) * (1 / 2) * (1 / 2),
      snd (acceleration_H st' 0 0) * (1 / 2) * (1 / 2))"
    using u [THEN conjunct2, THEN conjunct2, THEN conjunct2, THEN conjunct2, THEN conjunct1]
      rows(1) p0 small_params_simps(5) vH
    by simp
  have pCl: "position_Cl st' 1 0 =
     (1 + fst (acceleration_Cl st' 0 0) * (1 / 2) * (1 / 2),
      snd (acceleration_Cl st' 0 0) * (1 / 2) * (1 / 2))"
    using u [THEN conjunct2, THEN conjunct2, THEN conjunct2, THEN conjunct2, THEN conjunct2,
        THEN conjunct1]
      rows(2) p0 small_params_simps(5) vCl
    by simp
  show ?thesis
    unfolding run sum.sel using rows(1,2) aH aCl vH pH pCl by simp
qed




text \<open>
  Claim C4 as stated fails in float64: the two accelerations are rounded quotients, and
  their products with the masses need not cancel. With H at \<open>(0, 0)\<close> and Cl at \<open>(0, 5)\<close>
  the code stores the accelerations \<open>5104950212773195 * 2^48\<close> and
  \<open>- 4644370458633719 * 2^43\<close> in the y direction; \<open>mass_H * spring_acc_H +
  mass_Cl * spring_acc_Cl\<close> is then not 0, neither as a real number nor as the code would
  evaluate it, which yields \<open>- 2^-41\<close>.
\<close>
theorem spring_newton_third_counterexample:
  "spring_acc_r float64 (0, 0) (0, 5) =
     ((0, 5104950212773195 * 2 ^ 48), (0, - (4644370458633719 * 2 ^ 43))) \<and>
   mass_H_r float64 * snd (fst (spring_acc_r float64 (0, 0) (0, 5))) +
     mass_Cl_r float64 * snd (snd (spring_acc_r float64 (0, 0) (0, 5))) \<noteq> 0 \<and>
   float64 (float64 (mass_H_r float64 * snd (fst (spring_acc_r float64 (0, 0) (0, 5)))) +
            float64 (mass_Cl_r float64 * snd (snd (spring_acc_r float64 (0, 0) (0, 5)))))
     = - (1 / 2 ^ 41)"
proof -
  have "mass_H_r float64 * (5104950212773195 * 2 ^ 48) +
      mass_Cl_r float64 * (- (4644370458633719 * 2 ^ 43)) \<noteq> 0"
    unfolding mass_H_float64 mass_Cl_float64 by simp
  with residual_float64 show ?thesis
    unfolding spring_acc_float64 fst_conv snd_conv by simp
qed

text \<open>
  Claim C4, amended. The integration loop does not raise when \<open>timesteps \<ge> 20\<close> and
  leaves the initial positions (row 0) as they were. In exact arithmetic, in the arrays
  it returns, for every timestep \<open>t\<close> of the loop and every molecule whose two atoms do
  not coincide at \<open>t\<close>: with \<open>d\<close> the distance of the two atoms at \<open>t\<close>, \<open>u\<close> the vector
  from H to Cl divided by \<open>d\<close>, which is a unit vector, and \<open>F = k_spring * (d -
  bond_length)\<close>, the spring acceleration of H is \<open>u * F / mass_H\<close>, that of Cl is
  \<open>- u * F / mass_Cl\<close>, and \<open>mass_H * spring_acc_H + mass_Cl * spring_acc_Cl = 0\<close>. In
  float64 the two forces are still exact opposites: for atoms at a nonzero computed
  distance the acceleration of H is the rounded quotient of a force \<open>f\<close> by \<open>mass_H\<close> and
  that of Cl the rounded quotient of \<open>- f\<close> by \<open>mass_Cl\<close>; the sum of the products with
  the masses is 0 only up to the rounding of these quotients.
\<close>
theorem spring_newton_third:
  "(20 \<le> timesteps p \<longrightarrow> \<not> isl (md_loop p st)) \<and>
   (\<forall>st'. md_loop p st = Inr st' \<longrightarrow>
      position_H st' 0 = position_H st 0 \<and> position_Cl st' 0 = position_Cl st 0 \<and>
      (\<forall>t<timesteps p - 1. \<forall>i<num_molecules p.
         position_H st' t i \<noteq> position_Cl st' t i \<longrightarrow>
           (let rH = position_H st' t i; rCl = position_Cl st' t i;
                d = distance rCl rH;
                ux = (fst rCl - fst rH) / d; uy = (snd rCl - snd rH) / d;
                F = k_spring * (d - bond_length)
            in ux\<^sup>2 + uy\<^sup>2 = 1 \<and>
               spring_acc_H st' t i = (ux * F / mass_H, uy * F / mass_H) \<and>
               spring_acc_Cl st' t i = (- ux * F / mass_Cl, - uy * F / mass_Cl) \<and>
               mass_H * fst (spring_acc_H st' t i) + mass_Cl * fst (spring_acc_Cl st' t i) = 0 \<and>
               mass_H * snd (spring_acc_H st' t i) + mass_Cl * snd (spring_acc_Cl st' t i) = 0))) \<and>
   (vnorm_r float64 (vsub_r float64 rCl rH) \<noteq> 0 \<longrightarrow>
      (let dv = vsub_r float64 rCl rH; n = vnorm_r float64 dv;
           F = float64 (k_spring * float64 (n - bond_length_r float64));
           f = vscale_r float64 (vdiv_r float64 dv n) F
       in spring_acc_r float64 rH rCl =
            (vdiv_r float64 f (mass_H_r float64), vdiv_r float64 (vneg f) (mass_Cl_r float64))))"
proof (intro conjI impI allI)
  assume "20 \<le> timesteps p"
  from md_loop_total [OF this, of st] show "\<not> isl (md_loop p st)" by auto
next
  fix st' assume "md_loop p st = Inr st'"
  from md_loop_result(2,3) [OF this]
  show "position_H st' 0 = position_H st 0" "position_Cl st' 0 = position_Cl st 0"
    by blast+
next
  fix st' t i
  assume "md_loop p st = Inr st'" "t < timesteps p - 1" "i < num_molecules p"
    and ne: "position_H st' t i \<noteq> position_Cl st' t i"
  with md_loop_result(1) [of p st st'] have "step_ok p st' t" by blast
  with \<open>i < num_molecules p\<close>
  have s: "spring_acc_H st' t i = fst (spring_acc (position_H st' t i) (position_Cl st' t i))"
    "spring_acc_Cl st' t i = snd (spring_acc (position_H st' t i) (position_Cl st' t i))"
    unfolding step_ok_def by blast+
  have u: "((fst (position_Cl st' t i) - fst (position_H st' t i))
              / distance (position_Cl st' t i) (position_H st' t i))\<^sup>2 +
           ((snd (position_Cl st' t i) - snd (position_H st' t i))
              / distance (position_Cl st' t i) (position_H st' t i))\<^sup>2 = 1"
    using ne by (intro unit_vector) simp
  have f: "spring_acc_H st' t i =
      ((fst (position_Cl st' t i) - fst (position_H st' t i))
          / distance (position_Cl st' t i) (position_H st' t i)
          * (k_spring * (distance (position_Cl st' t i) (position_H st' t i) - bond_length)) / mass_H,
       (snd (position_Cl st' t i) - snd (position_H st' t i))
          / distance (position_Cl st' t i) (position_H st' t i)
          * (k_spring * (distance (position_Cl st' t i) (position_H st' t i) - bond_length)) / mass_H)"
    "spring_acc_Cl st' t i =
      (- ((fst (position_Cl st' t i) - fst (position_H st' t i))
          / distance (position_Cl st' t i) (position_H st' t i))
          * (k_spring * (distance (position_Cl st' t i) (position_H st' t i) - bond_length)) / mass_Cl,
       - ((snd (position_Cl st' t i) - snd (position_H st' t i))
          / distance (position_Cl st' t i) (position_H st' t i))
          * (k_spring * (distance (position_Cl st' t i) (position_H st' t i) - bond_length)) / mass_Cl)"
    unfolding s by (simp_all add: spring_acc_formula)
  have z: "mass_H * fst (spring_acc_H st' t i) + mass_Cl * fst (spring_acc_Cl st' t i) = 0"
    "mass_H * snd (spring_acc_H st' t i) + mass_Cl * snd (spring_acc_Cl st' t i) = 0"
    unfolding s by (rule spring_third_law)+
  show "let rH = position_H st' t i; rCl = position_Cl st' t i;
                d = distance rCl rH;
                ux = (fst rCl - fst rH) / d; uy = (snd rCl - snd rH) / d;
                F = k_spring * (d - bond_length)
            in ux\<^sup>2 + uy\<^sup>2 = 1 \<and>
               spring_acc_H st' t i = (ux * F / mass_H, uy * F / mass_H) \<and>
               spring_acc_Cl st' t i = (- ux * F / mass_Cl, - uy * F / mass_Cl) \<and>
               mass_H * fst (spring_acc_H st' t i) + mass_Cl * fst (spring_acc_Cl st' t i) = 0 \<and>
               mass_H * snd (spring_acc_H st' t i) + mass_Cl * snd (spring_acc_Cl st' t i) = 0"
    unfolding Let_def using u f z by (intro conjI) assumption+
next
  show "let dv = vsub_r float64 rCl rH; n = vnorm_r float64 dv;
           F = float64 (k_spring * float64 (n - bond_length_r float64));
           f = vscale_r float64 (vdiv_r float64 dv n) F
       in spring_acc_r float64 rH rCl =
            (vdiv_r float64 f (mass_H_r float64), vdiv_r float64 (vneg f) (mass_Cl_r float64))"
    unfolding Let_def spring_acc_r_def
    by (simp only: spring_force_opposite [of float64, OF float64_minus])
qed

theorem spring_newton_third_witness:
  "\<not> isl line_run \<and>
   position_H (projr line_run) 0 0 = (0, 0) \<and> position_Cl (projr line_run) 0 0 = (1, 0) \<and>
   spring_acc_H (projr line_run) 0 0 = (k_spring * (1 - bond_length) / mass_H, 0) \<and>
   spring_acc_Cl (projr line_run) 0 0 = (- (k_spring * (1 - bond_length)) / mass_Cl, 0) \<and>
   mass_H * fst (spring_acc_H (projr line_run) 0 0) +
     mass_Cl * fst (spring_acc_Cl (projr line_run) 0 0) = 0 \<and>
   vnorm_r float64 (vsub_r float64 (0, 5) (0, 0)) = 5 \<and>
   spring_acc_r float64 (0, 0) (0, 5) =
     (vdiv_r float64 (0, 5288650929465055 / 2 ^ 41) (mass_H_r float64),
      vdiv_r float64 (vneg (0, 5288650929465055 / 2 ^ 41)) (mass_Cl_r float64))"
proof -
  note th = spring_newton_third [where p = small_params and st = "md_init line_H line_Cl"
      and rH = "(0, 0)" and rCl = "(0, 5)"]
  from th small_params_simps(1) obtain st' where
    st': "md_loop small_params (md_init line_H line_Cl) = Inr st'"
    by (cases "md_loop small_params (md_init line_H line_Cl)") auto
  then have run: "line_run = Inr st'" by (simp add: line_run_def)
  note r = th [THEN conjunct2, THEN conjunct1, rule_format, OF st']
  have rows: "position_H st' 0 0 = (0, 0)" "position_Cl st' 0 0 = (1, 0)"
    using r [THEN conjunct1] r [THEN conjunct2, THEN conjunct1]
    by (simp_all add: line_init line_H_def line_Cl_def)
  have ne: "position_H st' 0 0 \<noteq> position_Cl st' 0 0" unfolding rows by simp
  note u = r [THEN conjunct2, THEN conjunct2, rule_format, of 0 0,
      OF small_params_simps(2) small_params_simps(3) ne]
  note u' = u [unfolded Let_def]
  have a: "spring_acc_H st' 0 0 = (k_spring * (1 - bond_length) / mass_H, 0)"
    "spring_acc_Cl st' 0 0 = (- (k_spring * (1 - bond_length)) / mass_Cl, 0)"
    using u' [THEN conjunct2, THEN conjunct1] u' [THEN conjunct2, THEN conjunct2, THEN conjunct1]
    unfolding rows by (simp_all add: distance_on_axis)
  have z: "mass_H * fst (spring_acc_H st' 0 0) + mass_Cl * fst (spring_acc_Cl st' 0 0) = 0"
    using u' [THEN conjunct2, THEN conjunct2, THEN conjunct2, THEN conjunct1] .
  have n: "vnorm_r float64 (vsub_r float64 (0, 5) (0, 0)) = 5"
    by (simp only: spring_parts_float64)
  then have nz: "vnorm_r float64 (vsub_r float64 (0, 5) (0, 0)) \<noteq> 0" by simp
  note fl = th [THEN conjunct2, THEN conjunct2, rule_format, OF nz]
  have f: "spring_acc_r float64 (0, 0) (0, 5) =
     (vdiv_r float64 (0, 5288650929465055 / 2 ^ 41) (mass_H_r float64),
      vdiv_r float64 (vneg (0, 5288650929465055 / 2 ^ 41)) (mass_Cl_r float64))"
    using fl unfolding Let_def
    by (simp only: spring_parts_float64 spring_force_float64)
  from rows a z n f show ?thesis
    unfolding run sum.sel by (intro conjI) (simp, assumption+)
qed

text \<open>
  Claim C3. The integration loop does not raise when \<open>timesteps \<ge> 20\<close> and leaves the
  initial positions (row 0) as they were. In the arrays it returns, for every timestep
  \<open>t\<close> of the loop at which no two atoms coincide and for every molecule \<open>i\<close>, the
  Coulomb acceleration of the H atom of \<open>i\<close> is the sum, over the molecules \<open>j \<noteq> i\<close>, of
  the H-H and the H-Cl term, divided by \<open>mass_H\<close>, and that of the Cl atom the sum of the
  Cl-H and the Cl-Cl term over the same \<open>j\<close>, divided by \<open>mass_Cl\<close>; a term is
  \<open>k_e * q_a * q_b / d\<^sup>2\<close> times the difference of the two positions at \<open>t\<close> divided by
  its length \<open>d\<close>. No term pairs the two atoms of molecule \<open>i\<close>.
\<close>
theorem coulomb_between_molecules:
  "(20 \<le> timesteps p \<longrightarrow> \<not> isl (md_loop p st)) \<and>
   (\<forall>st'. md_loop p st = Inr st' \<longrightarrow>
      position_H st' 0 = position_H st 0 \<and> position_Cl st' 0 = position_Cl st 0 \<and>
      (\<forall>t<timesteps p - 1. \<forall>i<num_molecules p.
         apart (num_molecules p) (position_H st' t) (position_Cl st' t) \<longrightarrow>
           fst (coulomb_acc_H st' t i) =
             ((\<Sum>j\<in>{0..<num_molecules p} - {i}.
                 fst (coulomb_term charge_H charge_H (position_H st' t i) (position_H st' t j))) +
              (\<Sum>j\<in>{0..<num_molecules p} - {i}.
                 fst (coulomb_term charge_H charge_Cl (position_H st' t i) (position_Cl st' t j))))
             / mass_H \<and>
           snd (coulomb_acc_H st' t i) =
             ((\<Sum>j\<in>{0..<num_molecules p} - {i}.
                 snd (coulomb_term charge_H charge_H (position_H st' t i) (position_H st' t j))) +
              (\<Sum>j\<in>{0..<num_molecules p} - {i}.
                 snd (coulomb_term charge_H charge_Cl (position_H st' t i) (position_Cl st' t j))))
             / mass_H \<and>
           fst (coulomb_acc_Cl st' t i) =
             ((\<Sum>j\<in>{0..<num_molecules p} - {i}.
                 fst (coulomb_term charge_Cl charge_H (position_Cl st' t i) (position_H st' t j))) +
              (\<Sum>j\<in>{0..<num_molecules p} - {i}.
                 fst (coulomb_term charge_Cl charge_Cl (position_Cl st' t i) (position_Cl st' t j))))
             / mass_Cl \<and>
           snd (coulomb_acc_Cl st' t i) =
             ((\<Sum>j\<in>{0..<num_molecules p} - {i}.
                 snd (coulomb_term charge_Cl charge_H (position_Cl st' t i) (position_H st' t j))) +
              (\<Sum>j\<in>{0..<num_molecules p} - {i}.
                 snd (coulomb_term charge_Cl charge_Cl (position_Cl st' t i) (position_Cl st' t j))))
             / mass_Cl))"
proof (intro conjI impI allI)
  assume "20 \<le> timesteps p"
  from md_loop_total [OF this, of st] show "\<not> isl (md_loop p st)" by auto
next
  fix st' assume "md_loop p st = Inr st'"
  from md_loop_result(2,3) [OF this]
  show "position_H st' 0 = position_H st 0" "position_Cl st' 0 = position_Cl st 0"
    by blast+
next
  fix st' t i
  assume "md_loop p st = Inr st'" "t < timesteps p - 1" "i < num_molecules p"
  with md_loop_result(1) [of p st st'] have "step_ok p st' t" by blast
  with \<open>i < num_molecules p\<close>
  have s: "coulomb_acc_H st' t i =
       fst (coulomb_acc (num_molecules p) (position_H st' t) (position_Cl st' t) i)"
    "coulomb_acc_Cl st' t i =
       snd (coulomb_acc (num_molecules p) (position_H st' t) (position_Cl st' t) i)"
    unfolding step_ok_def by blast+
  show "fst (coulomb_acc_H st' t i) =
             ((\<Sum>j\<in>{0..<num_molecules p} - {i}.
                 fst (coulomb_term charge_H charge_H (position_H st' t i) (position_H st' t j))) +
              (\<Sum>j\<in>{0..<num_molecules p} - {i}.
                 fst (coulomb_term charge_H charge_Cl (position_H st' t i) (position_Cl st' t j))))
             / mass_H"
    unfolding s(1) by (rule coulomb_acc_terms(1))
  show "snd (coulomb_acc_H st' t i) =
             ((\<Sum>j\<in>{0..<num_molecules p} - {i}.
                 snd (coulomb_term charge_H charge_H (position_H st' t i) (position_H st' t j))) +
              (\<Sum>j\<in>{0..<num_molecules p} - {i}.
                 snd (coulomb_term charge_H charge_Cl (position_H st' t i) (position_Cl st' t j))))
             / mass_H"
    unfolding s(1) by (rule coulomb_acc_terms(2))
  show "fst (coulomb_acc_Cl st' t i) =
             ((\<Sum>j\<in>{0..<num_molecules p} - {i}.
                 fst (coulomb_term charge_Cl charge_H (position_Cl st' t i) (position_H st' t j))) +
              (\<Sum>j\<in>{0..<num_molecules p} - {i}.
                 fst (coulomb_term charge_Cl charge_Cl (position_Cl st' t i) (position_Cl st' t j))))
             / mass_Cl"
    unfolding s(2) by (rule coulomb_acc_terms(3))
  show "snd (coulomb_acc_Cl st' t i) =
             ((\<Sum>j\<in>{0..<num_molecules p} - {i}.
                 snd (coulomb_term charge_Cl charge_H (position_Cl st' t i) (position_H st' t j))) +
              (\<Sum>j\<in>{0..<num_molecules p} - {i}.
                 snd (coulomb_term charge_Cl charge_Cl (position_Cl st' t i) (position_Cl st' t j))))
             / mass_Cl"
    unfolding s(2) by (rule coulomb_acc_terms(4))
qed

theorem coulomb_between_molecules_witness:
  "\<not> isl line_run \<and>
   position_H (projr line_run) 0 = line_H \<and> position_Cl (projr line_run) 0 = line_Cl \<and>
   coulomb_acc_H (projr line_run) 0 0 =
     ((k_e * charge_H * charge_H / 9 * (- 1) + k_e * charge_H * charge_Cl / 16 * (- 1)) / mass_H,
      0) \<and>
   coulomb_acc_Cl (projr line_run) 0 0 =
     ((k_e * charge_Cl * charge_H / 4 * (- 1) + k_e * charge_Cl * charge_Cl / 9 * (- 1)) / mass_Cl,
      0)"
proof -
  note th = coulomb_between_molecules [of small_params "md_init line_H line_Cl"]
  from th small_params_simps(1) obtain st' where
    st': "md_loop small_params (md_init line_H line_Cl) = Inr st'"
    by (cases "md_loop small_params (md_init line_H line_Cl)") auto
  then have run: "line_run = Inr st'" by (simp add: line_run_def)
  note r = th [THEN conjunct2, rule_format, OF st']
  have rows: "position_H st' 0 = line_H" "position_Cl st' 0 = line_Cl"
    using r [THEN conjunct1] r [THEN conjunct2, THEN conjunct1]
    by (simp_all add: line_init)
  have ap: "apart (num_molecules small_params) (position_H st' 0) (position_Cl st' 0)"
    unfolding rows small_params_simps(4) by (rule line_apart)
  note u = r [THEN conjunct2, THEN conjunct2, rule_format, of 0 0,
      OF small_params_simps(2) small_params_simps(3) ap]
  have cH: "coulomb_acc_H st' 0 0 =
     ((k_e * charge_H * charge_H / 9 * (- 1) + k_e * charge_H * charge_Cl / 16 * (- 1)) / mass_H,
      0)"
    using u [THEN conjunct1] u [THEN conjunct2, THEN conjunct1]
    unfolding rows small_params_simps(4) line_others
    by (simp add: prod_eq_iff coulomb_term_def line_H_def line_Cl_def distance_on_axis)
  have cCl: "coulomb_acc_Cl st' 0 0 =
     ((k_e * charge_Cl * charge_H / 4 * (- 1) + k_e * charge_Cl * charge_Cl / 9 * (- 1)) / mass_Cl,
      0)"
    using u [THEN conjunct2, THEN conjunct2, THEN conjunct1]
      u [THEN conjunct2, THEN conjunct2, THEN conjunct2]
    unfolding rows small_params_simps(4) line_others
    by (simp add: prod_eq_iff coulomb_term_def line_H_def line_Cl_def distance_on_axis)
  show ?thesis
    unfolding run sum.sel using rows cH cCl by simp
qed

text \<open>
  Claim C8. With \<open>timesteps \<ge> 20\<close> the cell prints, in order, the progress line
  \<open>t of timesteps\<close> for exactly the timesteps \<open>t\<close> of the loop with \<open>t \<noteq> 0\<close> and
  \<open>t mod int(timesteps/20) = 0\<close>, and then one summary line. With \<open>timesteps = 5000\<close>
  these are the 19 progress lines for \<open>t = 250, 500, ..., 4750\<close>, followed by the summary
  line.
\<close>
theorem progress_lines:
  "(20 \<le> timesteps p \<longrightarrow>
      (\<exists>st'. md_run p st = Inr st' \<and>
         printed st' = printed st @
           map (\<lambda>t. Progress t (timesteps p))
             [t\<leftarrow>[0..<timesteps p - 1]. t \<noteq> 0 \<and> t mod (timesteps p div 20) = 0] @
           [Summary (num_molecules p) (timesteps p)])) \<and>
   (timesteps p = 5000 \<longrightarrow>
      (\<exists>st'. md_run p st = Inr st' \<and>
         printed st' = printed st @
           [Progress 250 5000, Progress 500 5000, Progress 750 5000, Progress 1000 5000,
            Progress 1250 5000, Progress 1500 5000, Progress 1750 5000, Progress 2000 5000,
            Progress 2250 5000, Progress 2500 5000, Progress 2750 5000, Progress 3000 5000,
            Progress 3250 5000, Progress 3500 5000, Progress 3750 5000, Progress 4000 5000,
            Progress 4250 5000, Progress 4500 5000, Progress 4750 5000] @
           [Summary (num_molecules p) 5000]))"
proof (intro conjI impI)
  assume "20 \<le> timesteps p"
  then show "\<exists>st'. md_run p st = Inr st' \<and>
         printed st' = printed st @
           map (\<lambda>t. Progress t (timesteps p))
             [t\<leftarrow>[0..<timesteps p - 1]. t \<noteq> 0 \<and> t mod (timesteps p div 20) = 0] @
           [Summary (num_molecules p) (timesteps p)]"
    by (rule md_run_lines)
next
  assume t: "timesteps p = 5000"
  then have "20 \<le> timesteps p" by simp
  from md_run_lines [OF this, of st] show "\<exists>st'. md_run p st = Inr st' \<and>
         printed st' = printed st @
           [Progress 250 5000, Progress 500 5000, Progress 750 5000, Progress 1000 5000,
            Progress 1250 5000, Progress 1500 5000, Progress 1750 5000, Progress 2000 5000,
            Progress 2250 5000, Progress 2500 5000, Progress 2750 5000, Progress 3000 5000,
            Progress 3250 5000, Progress 3500 5000, Progress 3750 5000, Progress 4000 5000,
            Progress 4250 5000, Progress 4500 5000, Progress 4750 5000] @
           [Summary (num_molecules p) 5000]"
    unfolding t progress_5000 by simp
qed

theorem progress_lines_witness:
  "timesteps notebook_params = 5000 \<and>
   \<not> isl (md_run notebook_params (md_init example_H example_Cl)) \<and>
   printed (projr (md_run notebook_params (md_init example_H example_Cl))) =
     [Progress 250 5000, Progress 500 5000, Progress 750 5000, Progress 1000 5000,
      Progress 1250 5000, Progress 1500 5000, Progress 1750 5000, Progress 2000 5000,
      Progress 2250 5000, Progress 2500 5000, Progress 2750 5000, Progress 3000 5000,
      Progress 3250 5000, Progress 3500 5000, Progress 3750 5000, Progress 4000 5000,
      Progress 4250 5000, Progress 4500 5000, Progress 4750 5000, Summary 16 5000] \<and>
   length (printed (projr (md_run notebook_params (md_init example_H example_Cl)))) = 19 + 1"
proof -
  have h: "timesteps notebook_params = 5000" by (simp add: notebook_params_def)
  have n: "num_molecules notebook_params = 16" "printed (md_init example_H example_Cl) = []"
    by (simp_all add: notebook_params_def md_init_def)
  from progress_lines [of notebook_params "md_init example_H example_Cl", THEN conjunct2,
      rule_format, OF h]
  obtain st' where "md_run notebook_params (md_init example_H example_Cl) = Inr st'"
    "printed st' = printed (md_init example_H example_Cl) @
           [Progress 250 5000, Progress 500 5000, Progress 750 5000, Progress 1000 5000,
            Progress 1250 5000, Progress 1500 5000, Progress 1750 5000, Progress 2000 5000,
            Progress 2250 5000, Progress 2500 5000, Progress 2750 5000, Progress 3000 5000,
            Progress 3250 5000, Progress 3500 5000, Progress 3750 5000, Progress 4000 5000,
            Progress 4250 5000, Progress 4500 5000, Progress 4750 5000] @
           [Summary (num_molecules notebook_params) 5000]"
    by blast
  with h n show ?thesis by simp
qed

text \<open>
  Claim C7, amended. The molecular-dynamics loop is of fixed length: with
  \<open>timesteps \<ge> 20\<close> it does not raise and its body is entered exactly \<open>timesteps - 1\<close>
  times. The path-growth loop of the lightning notebook is not: whenever it returns,
  \<open>ymin\<close> has reached 0, and the number of iterations it has made (the increase of its
  counter \<open>ns\<close>) is at least one when it started with \<open>ymin > 0\<close> and is bounded only by
  the number of sample arrays drawn; it depends on the samples.
\<close>
theorem loop_lengths:
  "(20 \<le> timesteps p \<longrightarrow>
      \<not> isl (md_loop p st) \<and>
      iterations [0..<timesteps p - 1] (md_step p) st = timesteps p - 1) \<and>
   (\<forall>l'. lightning_loop Lx Ly nrep eta us l = Some (Inr l') \<longrightarrow>
      ymin l' \<le> 0 \<and> ns l \<le> ns l' \<and> ns l' \<le> ns l + length us \<and>
      (0 < ymin l \<longrightarrow> ns l < ns l'))"
proof (intro conjI impI allI)
  assume "20 \<le> timesteps p"
  from md_loop_total [OF this, of st]
  show "\<not> isl (md_loop p st)" "iterations [0..<timesteps p - 1] (md_step p) st = timesteps p - 1"
    by auto
next
  fix l' assume "lightning_loop Lx Ly nrep eta us l = Some (Inr l')"
  from lightning_loop_result [OF this]
  show "ymin l' \<le> 0" "ns l \<le> ns l'" "ns l' \<le> ns l + length us"
    by simp_all
next
  fix l' assume "lightning_loop Lx Ly nrep eta us l = Some (Inr l')" "0 < ymin l"
  with lightning_loop_result [of Lx Ly nrep eta us l l'] show "ns l < ns l'" by simp
qed

theorem loop_lengths_witness:
  "20 \<le> timesteps notebook_params \<and>
   iterations [0..<timesteps notebook_params - 1] (md_step notebook_params)
     (md_init example_H example_Cl) = 4999 \<and>
   lightning_loop 50 50 3000 1 [zero_sample, zero_sample] (lightning_init 50 50) =
     Some (Inr (mark_point 50 50 0 0 (lightning_init 50 50))) \<and>
   0 < ymin (lightning_init 50 50) \<and>
   ymin (mark_point 50 50 0 0 (lightning_init 50 50)) \<le> 0 \<and>
   ns (lightning_init 50 50) < ns (mark_point 50 50 0 0 (lightning_init 50 50))"
proof -
  have h: "20 \<le> timesteps notebook_params" "timesteps notebook_params - 1 = 4999"
    by (simp_all add: notebook_params_def)
  have r: "lightning_loop 50 50 3000 1 [zero_sample, zero_sample] (lightning_init 50 50) =
      Some (Inr (mark_point 50 50 0 0 (lightning_init 50 50)))"
    by (rule loop_zero_sample_first) simp_all
  have y: "0 < ymin (lightning_init 50 50)" by (simp add: lightning_init_def)
  note th = loop_lengths [of notebook_params "md_init example_H example_Cl" 50 50 3000 1
      "[zero_sample, zero_sample]" "lightning_init 50 50"]
  note md = th [THEN conjunct1, rule_format, OF h(1), THEN conjunct2]
  note lg = th [THEN conjunct2, rule_format, OF r]
  from h md lg r y show ?thesis by simp
qed

end
